theory Spec2Isabelle
  imports Complex_Main "HOL-Library.AList"
begin

section \<open>The AniDB link layer (adbb/link.py)\<close>

text \<open>
  The development embeds the two classes of \<^verbatim>\<open>adbb/link.py\<close>, \<^verbatim>\<open>AniDBLink\<close> (the sender)
  and \<^verbatim>\<open>AniDBListener\<close> (the receiver), as functions on one record holding the attributes
  of both objects. Conventions:
  \<^item> a private attribute or method \<^verbatim>\<open>_x\<close> is written \<open>u_x\<close>;
  \<^item> Python 3 semantics throughout (the package uses f-strings);
  \<^item> \<^verbatim>\<open>time()\<close> reads the field \<open>clock\<close>, a real number; \<^verbatim>\<open>sleep(d)\<close> advances it by
    \<open>d\<close> and is recorded in the trace of effects, or raises when \<open>d\<close> is negative or
    too large;
  \<^item> the logger is reached as \<^verbatim>\<open>adbb._log\<close>, a module attribute that \<^verbatim>\<open>adbb/__init__.py\<close>
    never binds (it binds \<^verbatim>\<open>log\<close>): the field \<open>adbb_log\<close> tells whether the attribute
    exists, and every call of the logger raises AttributeError when it does not;
  \<^item> command objects are mutable and shared between the outbound queue, the in-flight
    table and the caller, so they live in a store (\<open>heap\<close>) and are passed by address;
  \<^item> a raised exception is a value: every procedure returns the exception, if any,
    together with the state reached when it was raised.
\<close>

subsection \<open>Data\<close>

datatype error =
    AttributeError | KeyError | RuntimeError | TypeError | ValueError | OverflowError
  | ZlibError | AniDBMustAuthError | AniDBPacketCorruptedError

text \<open>
  What a command's \<^verbatim>\<open>callback\<close> attribute can hold: \<^verbatim>\<open>None\<close>, one of the link's own two
  handlers, or a function of the caller (numbered; it does not touch the link).
\<close>

datatype callback = Cb_None | Cb_auth_handler | Cb_logout_handler | Cb_user nat

text \<open>The values the attribute \<^verbatim>\<open>_session\<close> takes: \<^verbatim>\<open>None\<close>, an integer, a string.\<close>

datatype session = SessNone | SessInt int | SessStr string

fun truthy_session :: "session \<Rightarrow> bool" where
  "truthy_session SessNone = False"
| "truthy_session (SessInt i) = (i \<noteq> 0)"
| "truthy_session (SessStr k) = (k \<noteq> [])"

text \<open>
  A command object, as far as the link touches it: the name \<^verbatim>\<open>command.command\<close>, and
  the attributes the link sets (\<^verbatim>\<open>tag\<close>, \<^verbatim>\<open>started\<close>, \<^verbatim>\<open>callback\<close>) and the session
  handed to \<^verbatim>\<open>authorize\<close>. \<open>None\<close> is Python's \<^verbatim>\<open>None\<close>.
\<close>

record Command =
  command :: string
  params :: "string list"
  tag :: "string option"
  started :: "real option"
  callback :: callback
  authorized :: session

record response =
  restag :: string
  rescode :: string
  sesskey :: "string option"
  datalines :: "string list"
  resstr :: string

datatype event =
    Slept real
  | Sent Command
  | Handled Command response
  | TimedOut Command
  | SocketClosed

datatype sender_state = Polling | Waiting nat | SenderExited | SenderCrashed error

datatype receiver_state = Receiving | ReceiverExited | ReceiverCrashed error

record world =
  u_user :: string
  u_pwd :: string
  u_queue :: "nat list"
  u_last_packet :: real
  u_counter :: int
  u_banned :: int
  u_current_tag :: int
  u_stop :: bool
  u_authed :: bool
  u_authenticating :: bool
  u_session :: session
  banned :: "int option"
  link_timeout :: "real option"
  timeout :: real
  sock :: bool
  cmd_queue :: "(string \<times> nat) list"
  heap :: "nat \<Rightarrow> Command"
  next_ref :: nat
  clock :: real
  events :: "event list"
  sender :: sender_state
  receiver :: receiver_state
  adbb_log :: bool

type_synonym result = "error option \<times> world"

definition ok :: "world \<Rightarrow> result" where
  "ok s = (None, s)"

definition raise :: "error \<Rightarrow> world \<Rightarrow> result" where
  "raise e s = (Some e, s)"

definition andthen :: "result \<Rightarrow> (world \<Rightarrow> result) \<Rightarrow> result" where
  "andthen r f = (case r of (None, s) \<Rightarrow> f s | (Some e, s) \<Rightarrow> (Some e, s))"

text \<open>
  A call of a method of \<^verbatim>\<open>adbb._log\<close>: reading the attribute raises AttributeError when
  the module has no such attribute; the message itself has no effect on the link.
\<close>

definition u_log :: "world \<Rightarrow> result" where
  "u_log s = (if adbb_log s then ok s else raise AttributeError s)"

text \<open>
  \<^verbatim>\<open>time.sleep(d)\<close>: ValueError for a negative length, OverflowError for a length that
  does not fit the 64-bit count of nanoseconds.
\<close>

definition sleep :: "real \<Rightarrow> world \<Rightarrow> result" where
  "sleep d s =
     (if d < 0 then raise ValueError s
      else if d * 10 ^ 9 > 2 ^ 63 - 1 then raise OverflowError s
      else ok (s\<lparr>clock := clock s + d, events := events s @ [Slept d]\<rparr>))"

subsection \<open>The tag allocator\<close>

definition digit_char :: "nat \<Rightarrow> char" where
  "digit_char d = ''0123456789'' ! d"

function dec_digits :: "nat \<Rightarrow> string" where
  "dec_digits n =
     (if n < 10 then [digit_char n] else dec_digits (n div 10) @ [digit_char (n mod 10)])"
  by pat_completeness auto
termination
  by (relation "measure id") auto

declare dec_digits.simps [simp del]

definition zfill :: "nat \<Rightarrow> string \<Rightarrow> string" where
  "zfill w ds = replicate (w - length ds) (CHR ''0'') @ ds"

text \<open>Python's \<^verbatim>\<open>"{:03d}".format(n)\<close>: at least three characters, the sign included.\<close>

definition fmt03d :: "int \<Rightarrow> string" where
  "fmt03d n =
     (if n < 0 then CHR ''-'' # zfill 2 (dec_digits (nat (- n)))
      else zfill 3 (dec_digits (nat n)))"

definition u_new_tag :: "world \<Rightarrow> string \<times> world" where
  "u_new_tag s =
     (if u_current_tag s \<ge> 999 then (''TOOO'', s\<lparr>u_current_tag := 0\<rparr>)
      else
        (let s1 = s\<lparr>u_current_tag := u_current_tag s + 1\<rparr>
         in (''T'' @ fmt03d (u_current_tag s1), s1)))"

subsection \<open>Ban backoff\<close>

text \<open>The expression \<^verbatim>\<open>max(pow(2*3600, self._banned), 48*3600)\<close> of \<^verbatim>\<open>_do_delay\<close>.\<close>

definition ban_delay :: "int \<Rightarrow> int" where
  "ban_delay b = max ((2 * 3600) ^ nat b) (48 * 3600)"

text \<open>
  \<^verbatim>\<open>delay/3600\<close> on integers raises OverflowError when the quotient is too large for a
  float, that is when it rounds to \<open>2 ^ 1024\<close>.
\<close>

definition too_large_for_float :: "real \<Rightarrow> bool" where
  "too_large_for_float x = (x \<ge> 2 ^ 1024 - 2 ^ 970)"

subsection \<open>Command objects in the store\<close>

text \<open>
  Modelled from the spec: the constructors \<^verbatim>\<open>AuthCommand\<close> and \<^verbatim>\<open>LogoutCommand\<close> of
  \<^verbatim>\<open>adbb.commands\<close>, a module that is not part of the sources at hand. They give the
  authentication and the logout request, whose command names are the ones
  \<^verbatim>\<open>link.py\<close> tests for (\<^verbatim>\<open>'AUTH'\<close>, \<^verbatim>\<open>'LOGOUT'\<close>).
\<close>

definition AuthCommand :: "string \<Rightarrow> string \<Rightarrow> Command" where
  "AuthCommand user pwd =
     \<lparr>command = ''AUTH'', params = [user, pwd, ''3'', ''adbb'', ''2'', ''1''],
      tag = None, started = None, callback = Cb_None, authorized = SessNone\<rparr>"

definition LogoutCommand :: Command where
  "LogoutCommand =
     \<lparr>command = ''LOGOUT'', params = [],
      tag = None, started = None, callback = Cb_None, authorized = SessNone\<rparr>"

text \<open>Creating an object: it gets the next free address.\<close>

definition alloc :: "Command \<Rightarrow> world \<Rightarrow> nat \<times> world" where
  "alloc c s = (next_ref s, s\<lparr>heap := (heap s)(next_ref s := c), next_ref := Suc (next_ref s)\<rparr>)"

definition set_started :: "nat \<Rightarrow> real option \<Rightarrow> world \<Rightarrow> world" where
  "set_started r v s = s\<lparr>heap := (heap s)(r := (heap s r)\<lparr>started := v\<rparr>)\<rparr>"

definition set_callback :: "nat \<Rightarrow> callback \<Rightarrow> world \<Rightarrow> world" where
  "set_callback r v s = s\<lparr>heap := (heap s)(r := (heap s r)\<lparr>callback := v\<rparr>)\<rparr>"

definition set_tag :: "nat \<Rightarrow> string option \<Rightarrow> world \<Rightarrow> world" where
  "set_tag r v s = s\<lparr>heap := (heap s)(r := (heap s r)\<lparr>tag := v\<rparr>)\<rparr>"

text \<open>\<^verbatim>\<open>command.authorize(session)\<close>: the command keeps the session for its payload.\<close>

definition authorize :: "nat \<Rightarrow> session \<Rightarrow> world \<Rightarrow> world" where
  "authorize r v s = s\<lparr>heap := (heap s)(r := (heap s r)\<lparr>authorized := v\<rparr>)\<rparr>"

subsection \<open>The outbound queue\<close>

text \<open>
  \<^verbatim>\<open>collections.deque\<close>: the left end is the head of the list. \<^verbatim>\<open>pop()\<close> takes from the
  right end; the loop that calls it has checked that the deque is not empty.
\<close>

definition deque_append :: "'a \<Rightarrow> 'a list \<Rightarrow> 'a list" where
  "deque_append x q = q @ [x]"

definition deque_appendleft :: "'a \<Rightarrow> 'a list \<Rightarrow> 'a list" where
  "deque_appendleft x q = x # q"

definition deque_pop :: "'a list \<Rightarrow> 'a \<times> 'a list" where
  "deque_pop q = (last q, butlast q)"

subsection \<open>AniDBLink: authentication, pacing, sending, queueing\<close>

text \<open>
  \<^verbatim>\<open>_reauthenticate\<close>, \<^verbatim>\<open>request\<close>, \<^verbatim>\<open>_send_command\<close> and \<^verbatim>\<open>_do_delay\<close> call each other:
  re-authentication issues the AUTH request, a request for AUTH is sent at once, sending
  paces first, and pacing under a ban ends by re-authenticating. The cycle is left at the
  second \<^verbatim>\<open>_reauthenticate\<close>, which finds the flag \<^verbatim>\<open>_authenticating\<close> set.

  The in-flight table \<^verbatim>\<open>cmd_queue\<close> is a dict: an association list in insertion order,
  where storing under a key that is present replaces the value in place.
\<close>

function u_reauthenticate :: "world \<Rightarrow> result"
  and request :: "nat \<Rightarrow> callback \<Rightarrow> bool \<Rightarrow> world \<Rightarrow> result"
  and u_send_command :: "nat \<Rightarrow> world \<Rightarrow> result"
  and u_do_delay :: "world \<Rightarrow> result"
where
  "u_reauthenticate s =
     (if u_authenticating s \<or> u_authed s then ok s
      else
        (let s1 = s\<lparr>u_authenticating := True\<rparr>;
             (req, s2) = alloc (AuthCommand (u_user s1) (u_pwd s1)) s1
         in request req Cb_auth_handler False s2))"
| "request r cb prio s =
     (let s1 = set_started r None s;
          s2 = set_callback r cb s1;
          (newtag, s3) = u_new_tag s2;
          s4 = set_tag r (Some newtag) s3;
          s5 = s4\<lparr>cmd_queue := AList.update newtag r (cmd_queue s4)\<rparr>
      in case u_log s5 of
           (Some e, s6) \<Rightarrow> (Some e, s6)
         | (None, s6) \<Rightarrow>
             (if command (heap s6 r) = ''AUTH'' then u_send_command r s6
              else if prio then ok (s6\<lparr>u_queue := deque_append r (u_queue s6)\<rparr>)
              else ok (s6\<lparr>u_queue := deque_appendleft r (u_queue s6)\<rparr>)))"
| "u_send_command r s =
     andthen (u_do_delay s) (\<lambda>s1.
       if \<not> truthy_session (u_session s1)
          \<and> command (heap s1 r) \<notin> {''AUTH'', ''PING'', ''ENCRYPT''}
       then raise AniDBMustAuthError s1
       else
         (let s2 = authorize r (u_session s1) s1;
              s3 = s2\<lparr>u_counter := u_counter s2 + 1\<rparr>;
              s4 = s3\<lparr>u_last_packet := clock s3\<rparr>;
              s5 = set_started r (Some (clock s4)) s4
          in andthen (u_log s5) (\<lambda>s6.
               if sock s6 then ok (s6\<lparr>events := events s6 @ [Sent (heap s6 r)]\<rparr>)
               else raise AttributeError s6)))"
| "u_do_delay s =
     (if u_banned s > 0 then
        (let delay = ban_delay (u_banned s)
         in case u_log s of
              (Some e, s0) \<Rightarrow> (Some e, s0)
            | (None, s0) \<Rightarrow>
                (if too_large_for_float (real_of_int delay / 3600) then raise OverflowError s0
                 else
                   (case sleep (real_of_int delay) s0 of
                      (Some e, s1) \<Rightarrow> (Some e, s1)
                    | (None, s1) \<Rightarrow>
                        (case u_log s1 of
                           (Some e, s2) \<Rightarrow> (Some e, s2)
                         | (None, s2) \<Rightarrow> u_reauthenticate s2))))
      else
        (let age = clock s - u_last_packet s;
             (delay, s1) = (if age > 120 then (0, s\<lparr>u_counter := 0\<rparr>)
                            else if u_counter s < 5 then (2, s)
                            else (6, s));
             delay1 = delay - age
         in if delay1 > 0 then andthen (u_log s1) (sleep delay1) else ok s1))"
  by pat_completeness auto

definition unauth_rank :: "world \<Rightarrow> nat" where
  "unauth_rank s = (if u_authenticating s \<or> u_authed s then 0 else 1)"

termination u_reauthenticate
  apply (relation "measure (\<lambda>x. case x of
     Inl (Inl s) \<Rightarrow> 4 * unauth_rank s
   | Inl (Inr (r, cb, prio, s)) \<Rightarrow> 4 * unauth_rank s + 3
   | Inr (Inl (r, s)) \<Rightarrow> 4 * unauth_rank s + 2
   | Inr (Inr s) \<Rightarrow> 4 * unauth_rank s + 1)")
      apply simp
     apply (auto simp: unauth_rank_def alloc_def)[1]
    apply (auto simp: unauth_rank_def set_started_def set_callback_def set_tag_def
                      u_new_tag_def u_log_def ok_def raise_def Let_def split: if_splits)[1]
   apply simp
  apply (auto simp: unauth_rank_def sleep_def u_log_def ok_def raise_def split: if_splits)[1]
  done

declare u_reauthenticate.simps [simp del] request.simps [simp del]
  u_send_command.simps [simp del] u_do_delay.simps [simp del]

definition u_logout_handler :: "response \<Rightarrow> world \<Rightarrow> result" where
  "u_logout_handler resp s = ok (s\<lparr>u_stop := True\<rparr>)"

definition u_auth_handler :: "response \<Rightarrow> world \<Rightarrow> result" where
  "u_auth_handler resp s =
     (let s1 = s\<lparr>u_banned := 0\<rparr>;
          s2 = s1\<lparr>u_authed := True\<rparr>
      in ok (s2\<lparr>u_authenticating := False\<rparr>))"

definition set_session :: "session \<Rightarrow> world \<Rightarrow> result" where
  "set_session v s = ok (s\<lparr>u_session := v\<rparr>)"

definition reauthenticate :: "world \<Rightarrow> result" where
  "reauthenticate s =
     (let s1 = s\<lparr>u_authed := False\<rparr>;
          s2 = s1\<lparr>u_session := SessNone\<rparr>
      in u_reauthenticate s2)"

text \<open>
  \<^verbatim>\<open>stop\<close> reads \<^verbatim>\<open>self.timeout\<close>, and \<^verbatim>\<open>set_banned\<close> reads \<^verbatim>\<open>self.banned\<close>. The constructor
  of \<^verbatim>\<open>AniDBLink\<close> creates neither attribute (it creates \<^verbatim>\<open>_banned\<close>; \<^verbatim>\<open>timeout\<close> is an
  attribute of the listener), so the fields \<open>link_timeout\<close> and \<open>banned\<close> are optional:
  \<open>None\<close> is an attribute that does not exist, and reading it raises AttributeError.
  The wait on the event \<^verbatim>\<open>_stop\<close> changes nothing in the link.
\<close>

definition stop :: "world \<Rightarrow> result" where
  "stop s =
     (if u_authed s then
        andthen (u_log s) (\<lambda>s0.
          let (req, s1) = alloc LogoutCommand s0
          in andthen (request req Cb_logout_handler False s1) (\<lambda>s2.
               case link_timeout s2 of
                 None \<Rightarrow> raise AttributeError s2
               | Some t \<Rightarrow> ok s2))
      else ok s)"

definition set_banned :: "string \<Rightarrow> world \<Rightarrow> result" where
  "set_banned reason s =
     andthen (u_log s) (\<lambda>s0.
       case banned s0 of
         None \<Rightarrow> raise AttributeError s0
       | Some b \<Rightarrow>
           (let s1 = s0\<lparr>banned := Some (b + 1)\<rparr>;
                s2 = s1\<lparr>u_authed := False\<rparr>;
                s3 = s2\<lparr>u_session := SessInt 0\<rparr>
            in u_reauthenticate s3))"

text \<open>One turn of the loop of \<^verbatim>\<open>AniDBLink.run\<close>, in two steps: up to the wait for
  authentication (\<open>run_pop\<close>), and from there on (\<open>run_send\<close>).\<close>

definition run_pop :: "world \<Rightarrow> world" where
  "run_pop s =
     (case sender s of
        Polling \<Rightarrow>
          (if length (u_queue s) < 1 then
             (case sleep (2 / 10) s of
                (Some e, s1) \<Rightarrow> s1\<lparr>sender := SenderCrashed e\<rparr>
              | (None, s1) \<Rightarrow> s1)
           else
             (let (cmd, q) = deque_pop (u_queue s);
                  s1 = s\<lparr>u_queue := q\<rparr>
              in case u_log s1 of
                   (Some e, s2) \<Rightarrow> s2\<lparr>sender := SenderCrashed e\<rparr>
                 | (None, s2) \<Rightarrow>
                     (if command (heap s2 cmd) \<noteq> ''AUTH'' then
                        (case (if \<not> u_authed s2 then u_reauthenticate s2 else ok s2) of
                           (Some e, s3) \<Rightarrow> s3\<lparr>sender := SenderCrashed e\<rparr>
                         | (None, s3) \<Rightarrow> s3\<lparr>sender := Waiting cmd\<rparr>)
                      else s2\<lparr>sender := Waiting cmd\<rparr>)))
      | _ \<Rightarrow> s)"

definition run_send :: "world \<Rightarrow> world" where
  "run_send s =
     (case sender s of
        Waiting cmd \<Rightarrow>
          (if command (heap s cmd) \<noteq> ''AUTH'' \<and> \<not> u_authed s then s
           else
             (case u_send_command cmd s of
                (Some e, s1) \<Rightarrow> s1\<lparr>sender := SenderCrashed e\<rparr>
              | (None, s1) \<Rightarrow>
                  (if command (heap s1 cmd) = ''LOGOUT'' then s1\<lparr>sender := SenderExited\<rparr>
                   else s1\<lparr>sender := Polling\<rparr>)))
      | _ \<Rightarrow> s)"

subsection \<open>AniDBListener\<close>

definition u_disconnect_socket :: "world \<Rightarrow> result" where
  "u_disconnect_socket s =
     (if sock s then ok (s\<lparr>sock := False, events := events s @ [SocketClosed]\<rparr>)
      else raise AttributeError s)"

definition listener_stop :: "world \<Rightarrow> result" where
  "listener_stop s = andthen (u_log s) u_disconnect_socket"

text \<open>
  A datagram read from the socket is a \<^verbatim>\<open>bytes\<close> object; the literal \<^verbatim>\<open>'\x00\x00'\<close> it is
  compared with is a \<^verbatim>\<open>str\<close>. Python 3 compares values of the two types as unequal,
  which is the equality of this datatype.
\<close>

type_synonym bytes = "char list"

datatype pyval = Bytes bytes | Str string

text \<open>
  The body of \<^verbatim>\<open>for i in range(2)\<close> in \<^verbatim>\<open>AniDBListener.run\<close>. The inflater
  (\<^verbatim>\<open>zlib.decompressobj().decompress\<close>, \<open>None\<close> when it raises) and the parser
  (\<^verbatim>\<open>ResponseResolver\<close> of \<^verbatim>\<open>adbb.responses\<close>, \<open>None\<close> for a result that is false) are
  parameters; \<open>lg\<close> tells whether the logger, which the branch that inflates calls,
  exists.
\<close>

definition decode_once ::
  "bool \<Rightarrow> (bytes \<Rightarrow> bytes option) \<Rightarrow> (bytes \<Rightarrow> response option) \<Rightarrow> bytes
     \<Rightarrow> error + response option"
where
  "decode_once lg decompress ResponseResolver data =
     (let tmp = data
      in if Bytes (take 2 tmp) = Str [CHR 0x00, CHR 0x00] then
           (case decompress (drop 2 tmp) of
              None \<Rightarrow> Inl ZlibError
            | Some tmp1 \<Rightarrow> (if lg then Inr (ResponseResolver tmp1) else Inl AttributeError))
         else Inr (ResponseResolver tmp))"

definition decode ::
  "bool \<Rightarrow> (bytes \<Rightarrow> bytes option) \<Rightarrow> (bytes \<Rightarrow> response option) \<Rightarrow> bytes
     \<Rightarrow> error + response option"
where
  "decode lg decompress ResponseResolver data =
     (case decode_once lg decompress ResponseResolver data of
        Inl e \<Rightarrow> Inl e
      | Inr resp0 \<Rightarrow> decode_once lg decompress ResponseResolver data)"

text \<open>
  Modelled from the spec: \<^verbatim>\<open>resp.handle()\<close> of \<^verbatim>\<open>adbb.responses\<close>, which is not part of the
  sources at hand: it delivers the parsed response to the callback of the request it
  answers. \<^verbatim>\<open>resp.resolve(cmd)\<close> and \<^verbatim>\<open>resp.parse()\<close> of the same module are taken to
  return.
\<close>

definition handle :: "nat \<Rightarrow> response \<Rightarrow> world \<Rightarrow> result" where
  "handle cmd resp s =
     (let s1 = s\<lparr>events := events s @ [Handled (heap s cmd) resp]\<rparr>
      in case callback (heap s1 cmd) of
           Cb_None \<Rightarrow> raise TypeError s1
         | Cb_auth_handler \<Rightarrow> u_auth_handler resp s1
         | Cb_logout_handler \<Rightarrow> u_logout_handler resp s1
         | Cb_user n \<Rightarrow> ok s1)"

text \<open>
  The body of the loop of \<^verbatim>\<open>AniDBListener.run\<close> once \<^verbatim>\<open>recv\<close> has returned \<open>data\<close>. The
  bare \<^verbatim>\<open>raise\<close> for the code 209, with no exception being handled, raises RuntimeError.
\<close>

definition run_data ::
  "(bytes \<Rightarrow> bytes option) \<Rightarrow> (bytes \<Rightarrow> response option) \<Rightarrow> bytes \<Rightarrow> world \<Rightarrow> result"
where
  "run_data decompress ResponseResolver data s =
     andthen (u_log s) (\<lambda>s0.
       case decode (adbb_log s0) decompress ResponseResolver data of
         Inl e \<Rightarrow> raise e s0
       | Inr None \<Rightarrow> raise AniDBPacketCorruptedError s0
       | Inr (Some resp) \<Rightarrow>
           (case map_of (cmd_queue s0) (restag resp) of
              None \<Rightarrow> raise KeyError s0
            | Some cmd \<Rightarrow>
                (let s1 = s0\<lparr>cmd_queue := AList.delete (restag resp) (cmd_queue s0)\<rparr>
                 in if rescode resp \<in> {''200'', ''201''} then
                      (case sesskey resp of
                         None \<Rightarrow> raise KeyError s1
                       | Some k \<Rightarrow> andthen (set_session (SessStr k) s1) (handle cmd resp))
                    else if rescode resp \<in> {''209''} then
                      andthen (u_log s1) (raise RuntimeError)
                    else if rescode resp \<in> {''501'', ''506'', ''403''} then
                      andthen (reauthenticate s1) (\<lambda>s2.
                        request cmd (callback (heap s2 cmd)) True s2)
                    else if rescode resp \<in> {''203'', ''500'', ''503''} then
                      andthen (listener_stop s1) (handle cmd resp)
                    else if rescode resp \<in> {''504'', ''555''} then
                      (let reason = (case datalines resp of [] \<Rightarrow> resstr resp | l # ls \<Rightarrow> l)
                       in andthen (set_banned reason s1) (\<lambda>s2.
                            request cmd (callback (heap s2 cmd)) True s2))
                    else handle cmd resp s1)))"

text \<open>
  Modelled from the spec: \<^verbatim>\<open>isinstance(cmd, adbb.commands.AuthCommand)\<close>, the test for
  the authentication request, whose class is not part of the sources at hand.
\<close>

definition isinstance_AuthCommand :: "Command \<Rightarrow> bool" where
  "isinstance_AuthCommand c = (command c = ''AUTH'')"

text \<open>Python's truth value of \<^verbatim>\<open>cmd.started\<close>: \<^verbatim>\<open>None\<close> and \<^verbatim>\<open>0.0\<close> are false.\<close>

definition truthy_started :: "real option \<Rightarrow> bool" where
  "truthy_started v = (case v of None \<Rightarrow> False | Some t \<Rightarrow> t \<noteq> 0)"

text \<open>
  The first loop of \<^verbatim>\<open>_handle_timeouts\<close>, over the items of the table in order: it
  collects the tags to pop and leaves the loop variable \<^verbatim>\<open>cmd\<close> bound to the last item
  (unbound, \<open>None\<close>, when the table is empty).
\<close>

fun collect_expired ::
  "world \<Rightarrow> (string \<times> nat) list \<Rightarrow> string option list \<times> nat option
     \<Rightarrow> string option list \<times> nat option"
where
  "collect_expired s [] acc = acc"
| "collect_expired s ((tg, cmd) # items) (willpop, var) =
     collect_expired s items
       (if tg = [] then (willpop, Some cmd)
        else if truthy_started (started (heap s cmd)) then
          (case started (heap s cmd) of
             Some t \<Rightarrow>
               (if clock s - t > timeout s then (willpop @ [tag (heap s cmd)], Some cmd)
                else (willpop, Some cmd))
           | None \<Rightarrow> (willpop, Some cmd))
        else (willpop, Some cmd))"

text \<open>
  The second loop: \<^verbatim>\<open>cmd\<close> is tested before it is assigned the popped entry.
  \<^verbatim>\<open>cmd.handle_timeout\<close> belongs to \<^verbatim>\<open>adbb.commands\<close>; it is recorded in the trace.
\<close>

fun pop_expired :: "string option list \<Rightarrow> nat \<Rightarrow> world \<Rightarrow> result" where
  "pop_expired [] cmd s = ok s"
| "pop_expired (tg # willpop) cmd s =
     andthen (if isinstance_AuthCommand (heap s cmd) then reauthenticate s else ok s) (\<lambda>s1.
       case tg of
         None \<Rightarrow> raise KeyError s1
       | Some t \<Rightarrow>
           (case map_of (cmd_queue s1) t of
              None \<Rightarrow> raise KeyError s1
            | Some cmd1 \<Rightarrow>
                (let s2 = s1\<lparr>cmd_queue := AList.delete t (cmd_queue s1)\<rparr>;
                     s3 = s2\<lparr>events := events s2 @ [TimedOut (heap s2 cmd1)]\<rparr>
                 in pop_expired willpop cmd1 s3)))"

definition u_handle_timeouts :: "world \<Rightarrow> result" where
  "u_handle_timeouts s =
     (case collect_expired s (cmd_queue s) ([], None) of
        (willpop, None) \<Rightarrow> ok s
      | (willpop, Some cmd) \<Rightarrow> pop_expired willpop cmd s)"

subsection \<open>The running link\<close>

text \<open>
  The two threads and the callers are interleaved at the granularity of one call or one
  turn of a loop. \<open>listener_recv\<close> and \<open>listener_timeout\<close> are the two ways a turn of
  \<^verbatim>\<open>AniDBListener.run\<close> goes; an exception that leaves a loop ends its thread.
\<close>

definition listener_recv ::
  "(bytes \<Rightarrow> bytes option) \<Rightarrow> (bytes \<Rightarrow> response option) \<Rightarrow> bytes \<Rightarrow> world \<Rightarrow> world"
where
  "listener_recv decompress ResponseResolver data s =
     (case receiver s of
        Receiving \<Rightarrow>
          (case run_data decompress ResponseResolver data s of
             (Some e, s1) \<Rightarrow> s1\<lparr>receiver := ReceiverCrashed e\<rparr>
           | (None, s1) \<Rightarrow> (if sock s1 then s1 else s1\<lparr>receiver := ReceiverExited\<rparr>))
      | _ \<Rightarrow> s)"

definition listener_timeout :: "world \<Rightarrow> world" where
  "listener_timeout s =
     (case receiver s of
        Receiving \<Rightarrow>
          (case u_handle_timeouts s of
             (Some e, s1) \<Rightarrow> s1\<lparr>receiver := ReceiverCrashed e\<rparr>
           | (None, s1) \<Rightarrow> (if sock s1 then s1 else s1\<lparr>receiver := ReceiverExited\<rparr>))
      | _ \<Rightarrow> s)"

datatype action =
    CallRequest Command nat bool
  | CallStop
  | SenderPop
  | SenderSend
  | Datagram bytes
  | RecvTimeout
  | Tick real

fun step ::
  "(bytes \<Rightarrow> bytes option) \<Rightarrow> (bytes \<Rightarrow> response option) \<Rightarrow> action \<Rightarrow> world \<Rightarrow> world"
where
  "step dz rr (CallRequest c n prio) s =
     (let (r, s1) = alloc c s in snd (request r (Cb_user n) prio s1))"
| "step dz rr CallStop s = snd (stop s)"
| "step dz rr SenderPop s = run_pop s"
| "step dz rr SenderSend s = run_send s"
| "step dz rr (Datagram data) s = listener_recv dz rr data s"
| "step dz rr RecvTimeout s = listener_timeout s"
| "step dz rr (Tick d) s = (if d \<ge> 0 then s\<lparr>clock := clock s + d\<rparr> else s)"

text \<open>
  The state the two constructors leave, for credentials, a timeout and the time, in the
  package as it is: \<^verbatim>\<open>adbb._log\<close> does not exist. \<open>with_logger\<close> is the same link in a process
  where something has bound \<^verbatim>\<open>adbb._log\<close>.
\<close>

definition blank :: Command where
  "blank = \<lparr>command = [], params = [], tag = None, started = None,
            callback = Cb_None, authorized = SessNone\<rparr>"

definition init :: "string \<Rightarrow> string \<Rightarrow> real \<Rightarrow> real \<Rightarrow> world" where
  "init user pwd tmo now =
     \<lparr>u_user = user, u_pwd = pwd, u_queue = [], u_last_packet = 0, u_counter = 0,
      u_banned = 0, u_current_tag = 0, u_stop = False, u_authed = False,
      u_authenticating = False, u_session = SessNone, banned = None, link_timeout = None,
      timeout = tmo, sock = True, cmd_queue = [], heap = (\<lambda>r. blank), next_ref = 0,
      clock = now, events = [], sender = Polling, receiver = Receiving, adbb_log = False\<rparr>"

definition with_logger :: "world \<Rightarrow> world" where
  "with_logger s = s\<lparr>adbb_log := True\<rparr>"

definition exec ::
  "(bytes \<Rightarrow> bytes option) \<Rightarrow> (bytes \<Rightarrow> response option) \<Rightarrow> action list \<Rightarrow> world \<Rightarrow> world"
where
  "exec dz rr acts s = foldl (\<lambda>s a. step dz rr a s) s acts"

text \<open>The commands of the datagrams sent so far, in order.\<close>

fun sent :: "event list \<Rightarrow> Command list" where
  "sent [] = []"
| "sent (Sent c # es) = c # sent es"
| "sent (e # es) = sent es"

text \<open>The order in which successive \<^verbatim>\<open>pop()\<close>s of the sender empty a queue.\<close>

function pop_order :: "'a list \<Rightarrow> 'a list" where
  "pop_order q =
     (if length q < 1 then []
      else (let (x, q1) = deque_pop q in x # pop_order q1))"
  by pat_completeness auto
termination
  by (relation "measure length") (auto simp: deque_pop_def)

declare pop_order.simps [simp del]

text \<open>A series of calls of \<^verbatim>\<open>request\<close>, each with a command, a callback and a priority.\<close>

fun request_all :: "(nat \<times> callback \<times> bool) list \<Rightarrow> world \<Rightarrow> world" where
  "request_all [] s = s"
| "request_all ((r, cb, prio) # reqs) s = request_all reqs (snd (request r cb prio s))"

text \<open>The tags that the next \<open>n\<close> calls of \<^verbatim>\<open>_new_tag\<close> return.\<close>

fun alloc_tags :: "nat \<Rightarrow> world \<Rightarrow> string list" where
  "alloc_tags 0 s = []"
| "alloc_tags (Suc n) s = fst (u_new_tag s) # alloc_tags n (snd (u_new_tag s))"

subsection \<open>Examples\<close>

text \<open>
  For the examples, a parser that stands for \<^verbatim>\<open>ResponseResolver\<close>: a reply is a tag of
  four characters, a blank, a code of three digits, a blank and the rest; the rest is the
  session key when the code is 200 or 201. An inflater that fails stands for zlib.
\<close>

definition example_resolver :: "bytes \<Rightarrow> response option" where
  "example_resolver data =
     (if length data < 8 then None
      else Some \<lparr>restag = take 4 data, rescode = take 3 (drop 5 data),
                 sesskey = (if take 3 (drop 5 data) \<in> {''200'', ''201''}
                            then Some (drop 9 data) else None),
                 datalines = [], resstr = drop 9 data\<rparr>)"

definition example_inflater :: "bytes \<Rightarrow> bytes option" where
  "example_inflater data = None"

definition cmd_named :: "string \<Rightarrow> Command" where
  "cmd_named name = blank\<lparr>command := name\<rparr>"


text \<open>Two requests with priority, ANIME first and FILE second, on a fresh link with a
  logger.\<close>

definition two_priority_requests :: world where
  "two_priority_requests =
     exec example_inflater example_resolver
       [CallRequest (cmd_named ''ANIME'') 0 True, CallRequest (cmd_named ''FILE'') 1 True]
       (with_logger (init ''u'' ''p'' 20 1000))"

text \<open>
  A fresh link with a logger is asked for ANIME, authenticates, sends the request, and
  receives the reply 555 (banned) to it.
\<close>

definition banned_reply :: world where
  "banned_reply =
     exec example_inflater example_resolver
       [CallRequest (cmd_named ''ANIME'') 0 False, SenderPop, Datagram ''T002 200 abcde'',
        SenderSend, Datagram ''T001 555 BANNED'']
       (with_logger (init ''u'' ''p'' 20 1000))"

text \<open>
  A fresh link with a logger is asked for ANIME; the sender takes the request and issues
  AUTH, which is sent at once; the link is asked for FILE; 30 seconds pass with no reply
  (the timeout is 20). The table then holds ANIME (not sent), AUTH (sent 30 seconds ago),
  FILE (not sent).
\<close>

definition auth_expired :: world where
  "auth_expired =
     exec example_inflater example_resolver
       [CallRequest (cmd_named ''ANIME'') 0 False, SenderPop,
        CallRequest (cmd_named ''FILE'') 1 False, Tick 30]
       (with_logger (init ''u'' ''p'' 20 1000))"

text \<open>
  A thousand requests on a fresh link while the sender does not run (it sleeps between two
  sends), with the logger (\<open>lg\<close>) or in the package as it is.
\<close>

definition thousand_requests :: "bool \<Rightarrow> world" where
  "thousand_requests lg =
     exec example_inflater example_resolver
       (replicate 1000 (CallRequest (cmd_named ''ANIME'') 0 False))
       ((init ''u'' ''p'' 20 1000)\<lparr>adbb_log := lg\<rparr>)"

text \<open>
  The link's \<^verbatim>\<open>reauthenticate()\<close> on a fresh link, and a first request on a fresh link
  followed by one turn of the sender's loop; each with the logger (\<open>lg\<close>) or in the
  package as it is.
\<close>

definition fresh_reauthenticate :: "bool \<Rightarrow> result" where
  "fresh_reauthenticate lg = reauthenticate ((init ''u'' ''p'' 20 1000)\<lparr>adbb_log := lg\<rparr>)"

definition first_request :: "bool \<Rightarrow> world" where
  "first_request lg =
     exec example_inflater example_resolver
       [CallRequest (cmd_named ''ANIME'') 0 False, SenderPop, SenderSend]
       ((init ''u'' ''p'' 20 1000)\<lparr>adbb_log := lg\<rparr>)"

subsection \<open>Auxiliary definitions\<close>

text \<open>
  The parts of \<^verbatim>\<open>_do_delay\<close>, \<^verbatim>\<open>request\<close>, \<^verbatim>\<open>_send_command\<close> and \<^verbatim>\<open>_reauthenticate\<close> that the
  proofs name: the pacing branch, the registration of a request (callback, tag, table
  entry), the transmission after the pacing, and the creation of the AUTH request.
\<close>

definition pacing :: "world \<Rightarrow> result" where
  "pacing s =
     (let age = clock s - u_last_packet s;
          s1 = (if age > 120 then s\<lparr>u_counter := 0\<rparr> else s);
          delay1 = (if age > 120 then 0 else if u_counter s < 5 then 2 else 6) - age
      in if delay1 > 0 then andthen (u_log s1) (sleep delay1) else ok s1)"

definition register :: "nat \<Rightarrow> callback \<Rightarrow> world \<Rightarrow> world" where
  "register r cb s =
     (let s1 = set_started r None s;
          s2 = set_callback r cb s1;
          s3 = snd (u_new_tag s2);
          s4 = set_tag r (Some (fst (u_new_tag s2))) s3
      in s4\<lparr>cmd_queue := AList.update (fst (u_new_tag s2)) r (cmd_queue s4)\<rparr>)"

definition sending :: "nat \<Rightarrow> world \<Rightarrow> result" where
  "sending r s1 =
     (if \<not> truthy_session (u_session s1)
         \<and> command (heap s1 r) \<notin> {''AUTH'', ''PING'', ''ENCRYPT''}
      then raise AniDBMustAuthError s1
      else
        (let s2 = authorize r (u_session s1) s1;
             s3 = s2\<lparr>u_counter := u_counter s2 + 1\<rparr>;
             s4 = s3\<lparr>u_last_packet := clock s3\<rparr>;
             s5 = set_started r (Some (clock s4)) s4
         in andthen (u_log s5) (\<lambda>s6.
              if sock s6 then ok (s6\<lparr>events := events s6 @ [Sent (heap s6 r)]\<rparr>)
              else raise AttributeError s6)))"

definition new_auth :: "world \<Rightarrow> world" where
  "new_auth s = s\<lparr>u_authenticating := True,
                   heap := (heap s)(next_ref s := AuthCommand (u_user s) (u_pwd s)),
                   next_ref := Suc (next_ref s)\<rparr>"

text \<open>The value of a string of decimal digits, and the tag that follows a counter value.\<close>

definition dec_value :: "string \<Rightarrow> nat" where
  "dec_value ds = foldl (\<lambda>a c. 10 * a + (of_char c - 48)) 0 ds"

definition tag_name :: "nat \<Rightarrow> string" where
  "tag_name m = (if m = 999 then ''TOOO'' else ''T'' @ fmt03d (int m + 1))"

text \<open>
  What holds of the in-flight table in every state of a run: the ban counter is 0 and the
  attribute \<^verbatim>\<open>banned\<close> does not exist, the tag counter is between 0 and 999, the keys
  are distinct, every entry is a created command that carries the tag it is stored
  under, and no command is stored under two tags. A command is free when it is created
  and not in the table.
\<close>

definition tag_inv :: "world \<Rightarrow> bool" where
  "tag_inv s \<longleftrightarrow>
     u_banned s = 0 \<and> banned s = None
     \<and> 0 \<le> u_current_tag s \<and> u_current_tag s \<le> 999
     \<and> distinct (map fst (cmd_queue s))
     \<and> (\<forall>t r. map_of (cmd_queue s) t = Some r \<longrightarrow> tag (heap s r) = Some t \<and> r < next_ref s)
     \<and> (\<forall>t t' r. map_of (cmd_queue s) t = Some r \<longrightarrow> map_of (cmd_queue s) t' = Some r \<longrightarrow> t = t')"

definition free_ref :: "nat \<Rightarrow> world \<Rightarrow> bool" where
  "free_ref x s \<longleftrightarrow> x < next_ref s \<and> (\<forall>t. map_of (cmd_queue s) t \<noteq> Some x)"

section \<open>Properties\<close>

subsection \<open>Pacing\<close>




subsection \<open>Ban backoff\<close>




subsection \<open>Decoding a datagram\<close>

text \<open>
  C9. Whatever the datagram, with the two-byte zero marker or without it, the receiver
  hands it to the parser as it is: the inflater is never applied, because the test for
  the marker compares a \<^verbatim>\<open>bytes\<close> value with a \<^verbatim>\<open>str\<close> literal.
\<close>

theorem decode_never_inflates:
  "decode lg decompress ResponseResolver data = Inr (ResponseResolver data)"
  by (simp add: decode_def decode_once_def)

subsection \<open>Stopping\<close>

text \<open>
  C10. \<^verbatim>\<open>stop()\<close> on a link whose flag \<^verbatim>\<open>_authed\<close> is not set returns without raising and
  leaves the whole state as it was: no logout request is created or queued, the outbound
  queue and the in-flight table are unchanged, and both loops go on.
\<close>

theorem stop_unauthenticated:
  assumes "\<not> u_authed s"
  shows "stop s = (None, s) \<and> step dz rr CallStop s = s"
  using assms by (simp add: stop_def ok_def)

theorem stop_unauthenticated_witness:
  "\<not> u_authed (init ''u'' ''p'' 20 100)
   \<and> stop (init ''u'' ''p'' 20 100) = (None, init ''u'' ''p'' 20 100)
   \<and> step (\<lambda>d. None) (\<lambda>d. None) CallStop (init ''u'' ''p'' 20 100) = init ''u'' ''p'' 20 100"
  using stop_unauthenticated [of "init ''u'' ''p'' 20 100" "\<lambda>d. None" "\<lambda>d. None"]
  by (simp add: init_def)

subsection \<open>The order of the outbound queue\<close>

lemma pop_order_rev: "pop_order q = rev q"
proof (induction q rule: rev_induct)
  case Nil
  show ?case by (subst pop_order.simps) simp
next
  case (snoc x xs)
  show ?case by (subst pop_order.simps) (simp add: deque_pop_def snoc)
qed

lemma run_pop_takes_first:
  assumes "sender s = Polling" and "u_queue s \<noteq> []" and "u_authed s" and "adbb_log s"
  shows "sender (run_pop s) = Waiting (hd (pop_order (u_queue s)))"
    and "pop_order (u_queue (run_pop s)) = tl (pop_order (u_queue s))"
  using assms
  by (cases "u_queue s" rule: rev_cases;
      simp add: run_pop_def pop_order_rev deque_pop_def Let_def ok_def u_log_def)+

lemma request_queued:
  assumes "command (heap s r) \<noteq> ''AUTH''" and "adbb_log s"
  shows "u_queue (snd (request r cb prio s)) = (if prio then u_queue s @ [r] else r # u_queue s)"
    and "command (heap (snd (request r cb prio s)) x) = command (heap s x)"
    and "adbb_log (snd (request r cb prio s))"
  using assms
  by (auto simp: request.simps Let_def set_started_def set_callback_def set_tag_def u_new_tag_def
        ok_def u_log_def deque_append_def deque_appendleft_def split: prod.splits)

lemma request_all_queue:
  "\<forall>(r, cb, prio) \<in> set reqs. command (heap s r) \<noteq> ''AUTH'' \<Longrightarrow> adbb_log s \<Longrightarrow>
   u_queue (request_all reqs s)
     = rev [r. (r, cb, prio) \<leftarrow> reqs, \<not> prio] @ u_queue s @ [r. (r, cb, prio) \<leftarrow> reqs, prio]"
proof (induction reqs arbitrary: s)
  case Nil
  then show ?case by simp
next
  case (Cons a reqs)
  obtain r cb prio where a: "a = (r, cb, prio)" by (cases a)
  have na: "command (heap s r) \<noteq> ''AUTH''" using Cons.prems a by simp
  note q = request_queued[OF na Cons.prems(2)]
  have "\<forall>(r', cb', prio') \<in> set reqs. command (heap (snd (request r cb prio s)) r') \<noteq> ''AUTH''"
    using Cons.prems by (auto simp: q(2))
  from Cons.IH[OF this q(3)] show ?case
    by (simp add: a q(1))
qed

text \<open>
  C4, as stated, fails within the priority class: of two requests enqueued with priority
  on a link with a logger, the sender takes the second one first.
\<close>

theorem priority_not_fifo:
  "map (\<lambda>r. command (heap two_priority_requests r)) (pop_order (u_queue two_priority_requests))
     = [''FILE'', ''ANIME'']
   \<and> sender (run_pop two_priority_requests) = Waiting 1
   \<and> command (heap two_priority_requests 1) = ''FILE''"
  by code_simp

text \<open>
  C4, amended. Where the logger \<^verbatim>\<open>adbb._log\<close> exists: after any series of requests (none
  of them AUTH), the sender takes first the requests enqueued with priority, the latest
  first; then what was waiting before, in the order it would have been taken; then the
  requests enqueued without priority, in the order they were enqueued. So a request with
  priority is taken before every waiting request without, requests without priority are
  first-in first-out, and requests with priority are last-in first-out.
\<close>

theorem queue_order:
  assumes "\<forall>(r, cb, prio) \<in> set reqs. command (heap s r) \<noteq> ''AUTH''" and "adbb_log s"
  shows "pop_order (u_queue (request_all reqs s))
     = rev [r. (r, cb, prio) \<leftarrow> reqs, prio] @ pop_order (u_queue s)
       @ [r. (r, cb, prio) \<leftarrow> reqs, \<not> prio]"
  by (simp add: pop_order_rev request_all_queue[OF assms])

theorem queue_order_witness:
  "pop_order (u_queue (request_all
      [(0, Cb_user 0, False), (1, Cb_user 1, True), (2, Cb_user 2, False), (3, Cb_user 3, True)]
      (with_logger ((init ''u'' ''p'' 20 1000)\<lparr>next_ref := 4\<rparr>))))
   = [3, 1, 0, 2]"
proof -
  have h: "\<forall>(r, cb, prio) \<in> set [(0, Cb_user 0, False), (1, Cb_user 1, True),
              (2, Cb_user 2, False), (3::nat, Cb_user 3, True)].
            command (heap (with_logger ((init ''u'' ''p'' 20 1000)\<lparr>next_ref := 4\<rparr>)) r) \<noteq> ''AUTH''"
    by (simp add: init_def blank_def with_logger_def)
  have l: "adbb_log (with_logger ((init ''u'' ''p'' 20 1000)\<lparr>next_ref := 4\<rparr>))"
    by (simp add: with_logger_def)
  have e: "pop_order (u_queue (with_logger ((init ''u'' ''p'' 20 1000)\<lparr>next_ref := 4\<rparr>))) = []"
    by (simp add: init_def pop_order_rev with_logger_def)
  show ?thesis
    using queue_order [OF h l] e by simp
qed

subsection \<open>A ban signalled by the server\<close>

lemma set_banned_raises:
  "banned s = None \<Longrightarrow> set_banned reason s = (Some AttributeError, s)"
  by (simp add: set_banned_def raise_def andthen_def u_log_def ok_def)

text \<open>
  C6. At the reply 555 the code does not do what the claim says: \<^verbatim>\<open>set_banned\<close> raises
  AttributeError at \<^verbatim>\<open>self.banned += 1\<close> and the receiver's loop ends; the ban counter
  \<^verbatim>\<open>_banned\<close> is still 0, the link is still authenticated with its session, and the
  request, popped from the in-flight table, has not been enqueued again.
\<close>

theorem ban_reply_raises:
  "receiver banned_reply = ReceiverCrashed AttributeError
   \<and> u_banned banned_reply = 0
   \<and> banned banned_reply = None
   \<and> u_authed banned_reply
   \<and> u_session banned_reply = SessStr ''abcde''
   \<and> u_queue banned_reply = []
   \<and> cmd_queue banned_reply = []"
  unfolding banned_reply_def by code_simp

subsection \<open>A reply with an unknown tag\<close>

text \<open>
  C7, as stated, fails: on a fresh link, whose in-flight table is empty, a reply with
  the tag T005 ends the receiver's loop, with KeyError where the logger exists and with
  AttributeError in the package as it is.
\<close>

theorem unknown_tag_crashes:
  "receiver (listener_recv example_inflater example_resolver ''T005 220 FILE''
      (with_logger (init ''u'' ''p'' 20 1000))) = ReceiverCrashed KeyError
   \<and> receiver (listener_recv example_inflater example_resolver ''T005 220 FILE''
      (init ''u'' ''p'' 20 1000)) = ReceiverCrashed AttributeError"
  by code_simp

text \<open>
  C7, amended. For every inbound datagram that parses into a response whose tag has no
  entry in the in-flight table, the turn of the receiver's loop raises: KeyError from
  popping the entry where the logger \<^verbatim>\<open>adbb._log\<close> exists, AttributeError from the call of
  the logger before the datagram is parsed where it does not. Nothing is delivered and the
  state of the link is unchanged, but the exception is not caught and ends the receiver's
  loop.
\<close>

theorem unknown_tag_raises:
  assumes "decode (adbb_log s) decompress ResponseResolver data = Inr (Some resp)"
    and "map_of (cmd_queue s) (restag resp) = None"
    and "receiver s = Receiving"
  shows "run_data decompress ResponseResolver data s
           = (Some (if adbb_log s then KeyError else AttributeError), s)
     \<and> listener_recv decompress ResponseResolver data s
           = s\<lparr>receiver := ReceiverCrashed (if adbb_log s then KeyError else AttributeError)\<rparr>"
  using assms
  by (cases "adbb_log s")
     (simp_all add: run_data_def listener_recv_def raise_def andthen_def u_log_def ok_def)

theorem unknown_tag_raises_witness:
  "run_data example_inflater example_resolver ''T005 220 FILE''
       (with_logger (init ''u'' ''p'' 20 1000))
     = (Some KeyError, with_logger (init ''u'' ''p'' 20 1000))
   \<and> listener_recv example_inflater example_resolver ''T005 220 FILE''
       (with_logger (init ''u'' ''p'' 20 1000))
     = (with_logger (init ''u'' ''p'' 20 1000))\<lparr>receiver := ReceiverCrashed KeyError\<rparr>"
proof -
  have d: "decode (adbb_log (with_logger (init ''u'' ''p'' 20 1000)))
             example_inflater example_resolver ''T005 220 FILE''
         = Inr (Some \<lparr>restag = ''T005'', rescode = ''220'', sesskey = None,
                       datalines = [], resstr = ''FILE''\<rparr>)"
    by (simp add: decode_def decode_once_def example_resolver_def)
  have m: "map_of (cmd_queue (with_logger (init ''u'' ''p'' 20 1000)))
             (restag \<lparr>restag = ''T005'', rescode = ''220'', sesskey = None,
                       datalines = [], resstr = ''FILE''\<rparr>) = None"
    by (simp add: init_def with_logger_def)
  have r: "receiver (with_logger (init ''u'' ''p'' 20 1000)) = Receiving"
    by (simp add: init_def with_logger_def)
  have l: "adbb_log (with_logger (init ''u'' ''p'' 20 1000))"
    by (simp add: with_logger_def)
  show ?thesis
    using unknown_tag_raises [OF d m r] l by simp
qed

subsection \<open>The expiry sweep\<close>

text \<open>
  C8. The sweep removes the expired AUTH request and calls its timeout handler once, and
  leaves the two requests not yet sent; but it does not re-authenticate: the test for the
  authentication request looks at the last item of the table (FILE), not at the expired
  entry, and no second AUTH is sent.
\<close>

theorem sweep_skips_reauthentication:
  "map (\<lambda>(t, r). (t, command (heap auth_expired r), started (heap auth_expired r)))
       (cmd_queue auth_expired)
     = [(''T001'', ''ANIME'', None), (''T002'', ''AUTH'', Some 1000), (''T003'', ''FILE'', None)]
   \<and> fst (u_handle_timeouts auth_expired) = None
   \<and> cmd_queue (listener_timeout auth_expired) = [(''T001'', 0), (''T003'', 2)]
   \<and> map command (sent (events (listener_timeout auth_expired))) = [''AUTH'']
   \<and> events (listener_timeout auth_expired)
       = events auth_expired @ [TimedOut (heap auth_expired 1)]
   \<and> receiver (listener_timeout auth_expired) = Receiving"
  unfolding auth_expired_def by code_simp

subsection \<open>The procedures of the link, unfolded\<close>

lemma sent_append [simp]: "sent (xs @ ys) = sent xs @ sent ys"
  by (induction xs rule: sent.induct) auto

lemma do_delay_unbanned: "\<not> 0 < u_banned s \<Longrightarrow> u_do_delay s = pacing s"
  by (simp add: u_do_delay.simps pacing_def Let_def)

lemma send_unbanned:
  assumes "\<not> 0 < u_banned s"
  shows "u_send_command r s = andthen (pacing s) (sending r)"
proof -
  have "u_send_command r s = andthen (pacing s) (\<lambda>s1. sending r s1)"
    unfolding sending_def by (subst u_send_command.simps) (simp only: do_delay_unbanned[OF assms])
  then show ?thesis by simp
qed

lemma pacing_same [simp]:
  "u_user (snd (pacing s)) = u_user s" "u_pwd (snd (pacing s)) = u_pwd s"
  "u_queue (snd (pacing s)) = u_queue s"
  "u_last_packet (snd (pacing s)) = u_last_packet s" "u_banned (snd (pacing s)) = u_banned s"
  "u_current_tag (snd (pacing s)) = u_current_tag s" "u_stop (snd (pacing s)) = u_stop s"
  "u_authed (snd (pacing s)) = u_authed s"
  "u_authenticating (snd (pacing s)) = u_authenticating s"
  "u_session (snd (pacing s)) = u_session s" "banned (snd (pacing s)) = banned s"
  "link_timeout (snd (pacing s)) = link_timeout s" "timeout (snd (pacing s)) = timeout s"
  "sock (snd (pacing s)) = sock s" "cmd_queue (snd (pacing s)) = cmd_queue s"
  "heap (snd (pacing s)) = heap s"
  "next_ref (snd (pacing s)) = next_ref s" "sender (snd (pacing s)) = sender s"
  "receiver (snd (pacing s)) = receiver s" "adbb_log (snd (pacing s)) = adbb_log s"
  "sent (events (snd (pacing s))) = sent (events s)"
  by (simp_all add: pacing_def Let_def sleep_def u_log_def andthen_def ok_def raise_def)

lemma register_same [simp]:
  "u_user (register r cb s) = u_user s" "u_pwd (register r cb s) = u_pwd s"
  "u_queue (register r cb s) = u_queue s"
  "u_last_packet (register r cb s) = u_last_packet s" "u_banned (register r cb s) = u_banned s"
  "u_counter (register r cb s) = u_counter s" "clock (register r cb s) = clock s"
  "events (register r cb s) = events s"
  "u_stop (register r cb s) = u_stop s"
  "u_authed (register r cb s) = u_authed s"
  "u_authenticating (register r cb s) = u_authenticating s"
  "u_session (register r cb s) = u_session s" "banned (register r cb s) = banned s"
  "link_timeout (register r cb s) = link_timeout s" "timeout (register r cb s) = timeout s"
  "sock (register r cb s) = sock s"
  "next_ref (register r cb s) = next_ref s" "sender (register r cb s) = sender s"
  "receiver (register r cb s) = receiver s" "adbb_log (register r cb s) = adbb_log s"
  "cmd_queue (register r cb s) = AList.update (fst (u_new_tag s)) r (cmd_queue s)"
  "heap (register r cb s)
     = (heap s)(r := (heap s r)\<lparr>started := None, callback := cb, tag := Some (fst (u_new_tag s))\<rparr>)"
  "u_current_tag (register r cb s) = (if u_current_tag s \<ge> 999 then 0 else u_current_tag s + 1)"
  by (simp_all add: register_def u_new_tag_def Let_def set_started_def set_callback_def
        set_tag_def fun_eq_iff)

lemma sending_same [simp]:
  "u_user (snd (sending r s)) = u_user s" "u_pwd (snd (sending r s)) = u_pwd s"
  "u_queue (snd (sending r s)) = u_queue s" "u_banned (snd (sending r s)) = u_banned s"
  "u_current_tag (snd (sending r s)) = u_current_tag s" "u_stop (snd (sending r s)) = u_stop s"
  "u_authed (snd (sending r s)) = u_authed s"
  "u_authenticating (snd (sending r s)) = u_authenticating s"
  "u_session (snd (sending r s)) = u_session s" "banned (snd (sending r s)) = banned s"
  "link_timeout (snd (sending r s)) = link_timeout s" "timeout (snd (sending r s)) = timeout s"
  "sock (snd (sending r s)) = sock s" "cmd_queue (snd (sending r s)) = cmd_queue s"
  "next_ref (snd (sending r s)) = next_ref s" "clock (snd (sending r s)) = clock s"
  "sender (snd (sending r s)) = sender s" "receiver (snd (sending r s)) = receiver s"
  "adbb_log (snd (sending r s)) = adbb_log s"
  "command (heap (snd (sending r s)) x) = command (heap s x)"
  "tag (heap (snd (sending r s)) x) = tag (heap s x)"
  "callback (heap (snd (sending r s)) x) = callback (heap s x)"
  by (simp_all add: sending_def Let_def authorize_def set_started_def u_log_def andthen_def
        ok_def raise_def)

lemma new_auth_same [simp]:
  "u_user (new_auth s) = u_user s" "u_pwd (new_auth s) = u_pwd s"
  "u_queue (new_auth s) = u_queue s" "u_banned (new_auth s) = u_banned s"
  "u_current_tag (new_auth s) = u_current_tag s" "u_stop (new_auth s) = u_stop s"
  "u_authed (new_auth s) = u_authed s" "u_authenticating (new_auth s) = True"
  "u_session (new_auth s) = u_session s" "banned (new_auth s) = banned s"
  "link_timeout (new_auth s) = link_timeout s" "timeout (new_auth s) = timeout s"
  "sock (new_auth s) = sock s" "cmd_queue (new_auth s) = cmd_queue s"
  "next_ref (new_auth s) = Suc (next_ref s)" "clock (new_auth s) = clock s"
  "sender (new_auth s) = sender s" "receiver (new_auth s) = receiver s"
  "events (new_auth s) = events s" "u_counter (new_auth s) = u_counter s"
  "u_last_packet (new_auth s) = u_last_packet s" "adbb_log (new_auth s) = adbb_log s"
  "heap (new_auth s) = (heap s)(next_ref s := AuthCommand (u_user s) (u_pwd s))"
  by (simp_all add: new_auth_def)

lemma request_let:
  "request r cb prio s =
     (let s5 = register r cb s
      in case u_log s5 of
           (Some e, s6) \<Rightarrow> (Some e, s6)
         | (None, s6) \<Rightarrow>
             (if command (heap s6 r) = ''AUTH'' then u_send_command r s6
              else if prio then ok (s6\<lparr>u_queue := deque_append r (u_queue s6)\<rparr>)
              else ok (s6\<lparr>u_queue := deque_appendleft r (u_queue s6)\<rparr>)))"
  by (subst request.simps) (simp add: register_def Let_def case_prod_beta)

lemma request_unlogged:
  "\<not> adbb_log s \<Longrightarrow> request r cb prio s = (Some AttributeError, register r cb s)"
  by (simp add: request_let Let_def u_log_def raise_def)

lemma request_nonauth:
  "adbb_log s \<Longrightarrow> command (heap s r) \<noteq> ''AUTH'' \<Longrightarrow>
   request r cb prio s =
     (None, (register r cb s)\<lparr>u_queue := (if prio then u_queue s @ [r] else r # u_queue s)\<rparr>)"
  by (simp add: request_let Let_def u_log_def ok_def deque_append_def deque_appendleft_def)

lemma request_auth:
  "adbb_log s \<Longrightarrow> command (heap s r) = ''AUTH'' \<Longrightarrow> \<not> 0 < u_banned s \<Longrightarrow>
   request r cb prio s = andthen (pacing (register r cb s)) (sending r)"
  by (simp add: request_let Let_def u_log_def ok_def send_unbanned)

lemma reauth_idle:
  "u_authenticating s \<or> u_authed s \<Longrightarrow> u_reauthenticate s = (None, s)"
  by (simp add: u_reauthenticate.simps ok_def)

lemma reauth_request:
  "\<not> (u_authenticating s \<or> u_authed s) \<Longrightarrow>
   u_reauthenticate s = request (next_ref s) Cb_auth_handler False (new_auth s)"
  by (subst u_reauthenticate.simps) (simp add: Let_def alloc_def new_auth_def)

lemma new_auth_command [simp]: "command (heap (new_auth s) (next_ref s)) = ''AUTH''"
  by (simp add: AuthCommand_def)

lemma snd_andthen:
  "snd (andthen r f) = (case fst r of None \<Rightarrow> snd (f (snd r)) | Some e \<Rightarrow> snd r)"
  by (cases r) (auto simp: andthen_def split: option.splits)

lemma fst_andthen:
  "fst (andthen r f) = (case fst r of None \<Rightarrow> fst (f (snd r)) | Some e \<Rightarrow> Some e)"
  by (cases r) (auto simp: andthen_def split: option.splits)

lemma andthen_cases:
  "andthen r f = (case fst r of None \<Rightarrow> f (snd r) | Some e \<Rightarrow> r)"
  by (cases r) (auto simp: andthen_def split: option.splits)

lemma andthen_log:
  "andthen (u_log s) f = (if adbb_log s then f s else (Some AttributeError, s))"
  by (simp add: andthen_def u_log_def ok_def raise_def)

lemma if_intro: "(c \<Longrightarrow> P a) \<Longrightarrow> (\<not> c \<Longrightarrow> P b) \<Longrightarrow> P (if c then a else b)"
  by simp

lemma andthen_intro:
  "P (snd r) \<Longrightarrow> (fst r = None \<Longrightarrow> P (snd (f (snd r)))) \<Longrightarrow> P (snd (andthen r f))"
  by (cases "fst r") (simp_all add: snd_andthen)

subsection \<open>The in-flight table in every run\<close>

lemma tag_inv_cong:
  assumes "u_banned s' = u_banned s" "banned s' = banned s" "u_current_tag s' = u_current_tag s"
    "cmd_queue s' = cmd_queue s" "next_ref s' = next_ref s" "\<And>x. tag (heap s' x) = tag (heap s x)"
  shows "tag_inv s' = tag_inv s"
  unfolding tag_inv_def assms ..

lemma free_ref_cong:
  assumes "cmd_queue s' = cmd_queue s" "next_ref s' = next_ref s"
  shows "free_ref x s' = free_ref x s"
  unfolding free_ref_def assms ..

lemma tag_inv_pacing: "tag_inv (snd (pacing s)) = tag_inv s"
  by (rule tag_inv_cong) simp_all

lemma free_ref_pacing: "free_ref x (snd (pacing s)) = free_ref x s"
  by (rule free_ref_cong) simp_all

lemma tag_inv_sending: "tag_inv (snd (sending r s)) = tag_inv s"
  by (rule tag_inv_cong) simp_all

lemma free_ref_sending: "free_ref x (snd (sending r s)) = free_ref x s"
  by (rule free_ref_cong) simp_all

lemma tag_inv_events: "tag_inv (s\<lparr>events := v\<rparr>) = tag_inv s"
  by (rule tag_inv_cong) simp_all

lemma tag_inv_receiver: "tag_inv (s\<lparr>receiver := v\<rparr>) = tag_inv s"
  by (rule tag_inv_cong) simp_all

lemma tag_inv_sender: "tag_inv (s\<lparr>sender := v\<rparr>) = tag_inv s"
  by (rule tag_inv_cong) simp_all

lemma tag_inv_queue: "tag_inv (s\<lparr>u_queue := v\<rparr>) = tag_inv s"
  by (rule tag_inv_cong) simp_all

lemma free_ref_queue: "free_ref x (s\<lparr>u_queue := v\<rparr>) = free_ref x s"
  by (rule free_ref_cong) simp_all

lemma tag_inv_register:
  assumes "tag_inv s" and "free_ref r s"
  shows "tag_inv (register r cb s)"
  using assms unfolding tag_inv_def free_ref_def
  by (auto simp: AList.update_conv' AList.distinct_update split: if_splits)

lemma free_ref_register:
  "free_ref x s \<Longrightarrow> x \<noteq> r \<Longrightarrow> free_ref x (register r cb s)"
  by (auto simp: free_ref_def AList.update_conv')

lemma tag_inv_new_auth:
  assumes "tag_inv s"
  shows "tag_inv (new_auth s)" and "free_ref (next_ref s) (new_auth s)"
  using assms unfolding tag_inv_def free_ref_def
  by (force simp: less_Suc_eq)+

lemma free_ref_new_auth: "free_ref x s \<Longrightarrow> free_ref x (new_auth s)"
  by (auto simp: free_ref_def)

lemma tag_inv_send_unbanned:
  "tag_inv s \<Longrightarrow> tag_inv (snd (andthen (pacing s) (sending r)))"
  by (rule andthen_intro) (simp_all add: tag_inv_pacing tag_inv_sending)

lemma free_ref_send_unbanned:
  "free_ref x s \<Longrightarrow> free_ref x (snd (andthen (pacing s) (sending r)))"
  by (rule andthen_intro) (simp_all add: free_ref_pacing free_ref_sending)

lemma tag_inv_request:
  assumes "tag_inv s" and "free_ref r s"
  shows "tag_inv (snd (request r cb prio s))"
proof -
  note i = tag_inv_register[OF assms, of cb]
  have b: "\<not> 0 < u_banned s" using assms(1) by (simp add: tag_inv_def)
  consider "\<not> adbb_log s" | "adbb_log s" "command (heap s r) \<noteq> ''AUTH''"
    | "adbb_log s" "command (heap s r) = ''AUTH''" by blast
  then show ?thesis
  proof cases
    case 1
    then show ?thesis using i by (simp add: request_unlogged)
  next
    case 2
    then show ?thesis using i by (simp add: request_nonauth tag_inv_queue)
  next
    case 3
    then show ?thesis using i b by (simp add: request_auth tag_inv_send_unbanned)
  qed
qed

lemma free_ref_request:
  assumes "u_banned s = 0" and "free_ref x s" and "x \<noteq> r"
  shows "free_ref x (snd (request r cb prio s))"
proof -
  note i = free_ref_register[OF assms(2,3), of cb]
  consider "\<not> adbb_log s" | "adbb_log s" "command (heap s r) \<noteq> ''AUTH''"
    | "adbb_log s" "command (heap s r) = ''AUTH''" by blast
  then show ?thesis
  proof cases
    case 1
    then show ?thesis using i by (simp add: request_unlogged)
  next
    case 2
    then show ?thesis using i by (simp add: request_nonauth free_ref_queue)
  next
    case 3
    then show ?thesis using i assms(1) by (simp add: request_auth free_ref_send_unbanned)
  qed
qed

lemma tag_inv_u_reauthenticate:
  assumes "tag_inv s"
  shows "tag_inv (snd (u_reauthenticate s))"
proof (cases "u_authenticating s \<or> u_authed s")
  case True
  then show ?thesis using assms by (simp add: reauth_idle)
next
  case False
  show ?thesis
    unfolding reauth_request[OF False]
    by (rule tag_inv_request[OF tag_inv_new_auth[OF assms]])
qed

lemma free_ref_u_reauthenticate:
  assumes "u_banned s = 0" and "free_ref x s"
  shows "free_ref x (snd (u_reauthenticate s))"
proof (cases "u_authenticating s \<or> u_authed s")
  case True
  then show ?thesis using assms by (simp add: reauth_idle)
next
  case False
  have "x \<noteq> next_ref s" using assms(2) by (simp add: free_ref_def)
  then show ?thesis
    unfolding reauth_request[OF False]
    using assms(1) by (intro free_ref_request free_ref_new_auth[OF assms(2)]) simp_all
qed

lemma tag_inv_alloc:
  assumes "tag_inv s"
  shows "tag_inv (snd (alloc c s))" and "free_ref (next_ref s) (snd (alloc c s))"
    and "fst (alloc c s) = next_ref s"
  using assms unfolding tag_inv_def free_ref_def alloc_def
  by (force simp: less_Suc_eq)+

lemma tag_inv_reauthenticate:
  assumes "tag_inv s"
  shows "tag_inv (snd (reauthenticate s))"
proof -
  have "tag_inv (s\<lparr>u_authed := False, u_session := SessNone\<rparr>) = tag_inv s"
    by (rule tag_inv_cong) simp_all
  then show ?thesis
    using assms by (simp add: reauthenticate_def Let_def tag_inv_u_reauthenticate)
qed

lemma free_ref_reauthenticate:
  assumes "u_banned s = 0" and "free_ref x s"
  shows "free_ref x (snd (reauthenticate s))"
proof -
  have "free_ref x (s\<lparr>u_authed := False, u_session := SessNone\<rparr>) = free_ref x s"
    by (rule free_ref_cong) simp_all
  then show ?thesis
    using assms by (simp add: reauthenticate_def Let_def free_ref_u_reauthenticate)
qed

lemma tag_inv_handle:
  assumes "tag_inv s"
  shows "tag_inv (snd (handle cmd resp s))"
proof -
  have a: "tag_inv (s\<lparr>events := e, u_banned := 0, u_authed := True, u_authenticating := False\<rparr>)"
    for e using assms by (simp add: tag_inv_def)
  have b: "tag_inv (s\<lparr>events := e, u_stop := True\<rparr>)" for e
    using assms by (simp add: tag_inv_def)
  show ?thesis
    using assms a b
    by (cases "callback (heap s cmd)")
       (simp_all add: handle_def Let_def raise_def ok_def u_auth_handler_def
          u_logout_handler_def tag_inv_events)
qed

lemma set_banned_state:
  "banned s = None \<Longrightarrow> snd (set_banned reason s) = s \<and> fst (set_banned reason s) = Some AttributeError"
  by (simp add: set_banned_def andthen_log raise_def)

lemma tag_inv_stop:
  assumes "tag_inv s"
  shows "tag_inv (snd (stop s))"
proof (cases "u_authed s \<and> adbb_log s")
  case False
  then show ?thesis using assms by (auto simp: stop_def ok_def andthen_log)
next
  case True
  have r: "tag_inv (snd (request (next_ref s) Cb_logout_handler False (snd (alloc LogoutCommand s))))"
    using tag_inv_alloc[OF assms] by (intro tag_inv_request) auto
  have "tag_inv (snd (andthen (request (next_ref s) Cb_logout_handler False (snd (alloc LogoutCommand s)))
     (\<lambda>s2. case link_timeout s2 of None \<Rightarrow> raise AttributeError s2 | Some t \<Rightarrow> ok s2)))"
    by (rule andthen_intro; use r in \<open>simp add: raise_def ok_def split: option.splits\<close>)
  then show ?thesis
    using True tag_inv_alloc(3)[OF assms, of LogoutCommand]
    by (simp add: stop_def andthen_log case_prod_beta)
qed

lemma tag_inv_pop:
  assumes "tag_inv s" and "map_of (cmd_queue s) t = Some cmd"
  shows "tag_inv (s\<lparr>cmd_queue := AList.delete t (cmd_queue s)\<rparr>)"
    and "free_ref cmd (s\<lparr>cmd_queue := AList.delete t (cmd_queue s)\<rparr>)"
  using assms unfolding tag_inv_def free_ref_def
  by (auto simp: AList.delete_conv' AList.distinct_delete split: if_splits)

lemma tag_inv_listener_stop: "tag_inv s \<Longrightarrow> tag_inv (snd (listener_stop s))"
proof -
  assume i: "tag_inv s"
  have "tag_inv (s\<lparr>sock := False, events := e\<rparr>) = tag_inv s" for e
    by (rule tag_inv_cong) simp_all
  then show ?thesis
    using i by (simp add: listener_stop_def andthen_log u_disconnect_socket_def ok_def raise_def)
qed

lemma tag_inv_run_data:
  assumes "tag_inv s"
  shows "tag_inv (snd (run_data dz rr data s))"
proof (cases "adbb_log s")
  case False
  then show ?thesis using assms by (simp add: run_data_def andthen_log)
next
  case lg: True
  show ?thesis
  proof (cases "decode True dz rr data")
    case (Inl e)
    then show ?thesis using assms lg by (simp add: run_data_def andthen_log raise_def)
  next
    case (Inr ro)
    show ?thesis
    proof (cases ro)
      case None
      then show ?thesis using assms Inr lg by (simp add: run_data_def andthen_log raise_def)
    next
      case (Some resp)
      note ro = this
      show ?thesis
      proof (cases "map_of (cmd_queue s) (restag resp)")
        case None
        then show ?thesis using assms Inr ro lg by (simp add: run_data_def andthen_log raise_def)
      next
        case (Some cmd)
        define s1 where "s1 = s\<lparr>cmd_queue := AList.delete (restag resp) (cmd_queue s)\<rparr>"
        have i1: "tag_inv s1" and f1: "free_ref cmd s1"
          using tag_inv_pop[OF assms Some] by (simp_all add: s1_def)
        have b1: "u_banned s1 = 0" "banned s1 = None" using i1 by (simp_all add: tag_inv_def)
        have h: "tag_inv (snd (handle cmd resp s1))" by (rule tag_inv_handle[OF i1])
        have "tag_inv (s1\<lparr>u_session := SessStr k\<rparr>)" for k
          using i1 tag_inv_cong[of "s1\<lparr>u_session := SessStr k\<rparr>" s1] by simp
        then have a: "tag_inv (snd (andthen (set_session (SessStr k) s1) (handle cmd resp)))" for k
          by (simp add: snd_andthen set_session_def ok_def tag_inv_handle)
        have c: "tag_inv (snd (andthen (listener_stop s1) (handle cmd resp)))"
          by (rule andthen_intro) (simp_all add: tag_inv_listener_stop tag_inv_handle i1)
        have "tag_inv (snd (request cmd cb True (snd (reauthenticate s1))))" for cb
          by (rule tag_inv_request[OF tag_inv_reauthenticate[OF i1]
                free_ref_reauthenticate[OF b1(1) f1]])
        then have d: "tag_inv (snd (andthen (reauthenticate s1)
                   (\<lambda>s2. request cmd (callback (heap s2 cmd)) True s2)))"
          using tag_inv_reauthenticate[OF i1]
          by (cases "fst (reauthenticate s1)") (simp_all add: snd_andthen)
        have e: "tag_inv (snd (andthen (set_banned reason s1)
                   (\<lambda>s2. request cmd (callback (heap s2 cmd)) True s2)))" for reason
          using i1 set_banned_state[OF b1(2), of reason] by (simp add: snd_andthen)
        have g: "tag_inv (snd (andthen (u_log s1) (raise RuntimeError)))"
          using i1 by (simp add: andthen_log raise_def)
        have rd: "run_data dz rr data s =
            (if rescode resp \<in> {''200'', ''201''} then
               (case sesskey resp of
                  None \<Rightarrow> raise KeyError s1
                | Some k \<Rightarrow> andthen (set_session (SessStr k) s1) (handle cmd resp))
             else if rescode resp \<in> {''209''} then andthen (u_log s1) (raise RuntimeError)
             else if rescode resp \<in> {''501'', ''506'', ''403''} then
               andthen (reauthenticate s1) (\<lambda>s2. request cmd (callback (heap s2 cmd)) True s2)
             else if rescode resp \<in> {''203'', ''500'', ''503''} then
               andthen (listener_stop s1) (handle cmd resp)
             else if rescode resp \<in> {''504'', ''555''} then
               andthen (set_banned (case datalines resp of [] \<Rightarrow> resstr resp | l # ls \<Rightarrow> l) s1)
                 (\<lambda>s2. request cmd (callback (heap s2 cmd)) True s2)
             else handle cmd resp s1)"
          unfolding run_data_def s1_def Let_def andthen_log using Inr ro Some lg
          by simp
        have k: "tag_inv (snd (case sesskey resp of
                  None \<Rightarrow> raise KeyError s1
                | Some k \<Rightarrow> andthen (set_session (SessStr k) s1) (handle cmd resp)))"
          using a i1 by (cases "sesskey resp") (simp_all add: raise_def)
        show ?thesis
          unfolding rd
          by (intro if_intro[where P = "\<lambda>x. tag_inv (snd x)"] k g d c e h)
      qed
    qed
  qed
qed

lemma tag_inv_pop_expired:
  "tag_inv s \<Longrightarrow> tag_inv (snd (pop_expired willpop cmd s))"
proof (induction willpop arbitrary: cmd s)
  case Nil
  then show ?case by (simp add: ok_def)
next
  case (Cons tg willpop)
  define r1 where "r1 = (if isinstance_AuthCommand (heap s cmd) then reauthenticate s else ok s)"
  define k where "k = (\<lambda>s1. case tg of
         None \<Rightarrow> raise KeyError s1
       | Some t \<Rightarrow>
           (case map_of (cmd_queue s1) t of
              None \<Rightarrow> raise KeyError s1
            | Some cmd1 \<Rightarrow>
                (let s2 = s1\<lparr>cmd_queue := AList.delete t (cmd_queue s1)\<rparr>;
                     s3 = s2\<lparr>events := events s2 @ [TimedOut (heap s2 cmd1)]\<rparr>
                 in pop_expired willpop cmd1 s3)))"
  have pe: "pop_expired (tg # willpop) cmd s = andthen r1 k"
    unfolding r1_def k_def by simp
  have i1: "tag_inv (snd r1)"
    using Cons.prems by (simp add: r1_def tag_inv_reauthenticate ok_def)
  have ik: "tag_inv (snd (k (snd r1)))"
  proof (cases tg)
    case None
    then show ?thesis using i1 by (simp add: k_def raise_def)
  next
    case (Some t)
    note tg = this
    show ?thesis
    proof (cases "map_of (cmd_queue (snd r1)) t")
      case None
      then show ?thesis using i1 tg by (simp add: k_def raise_def)
    next
      case (Some cmd1)
      have "tag_inv ((snd r1)\<lparr>cmd_queue := AList.delete t (cmd_queue (snd r1)),
               events := events (snd r1) @ [TimedOut (heap (snd r1) cmd1)]\<rparr>)"
        using tag_inv_pop(1)[OF i1 Some] by (simp only: tag_inv_events)
      from Cons.IH[OF this, of cmd1] show ?thesis
        unfolding k_def tg using Some by (simp add: Let_def)
    qed
  qed
  show ?case
    unfolding pe using i1 ik by (cases "fst r1") (simp_all add: andthen_cases)
qed

lemma tag_inv_handle_timeouts: "tag_inv s \<Longrightarrow> tag_inv (snd (u_handle_timeouts s))"
  by (cases "collect_expired s (cmd_queue s) ([], None)";
      cases "snd (collect_expired s (cmd_queue s) ([], None))")
     (simp_all add: u_handle_timeouts_def ok_def tag_inv_pop_expired)

lemma tag_inv_sender_result:
  "tag_inv (snd p) \<Longrightarrow>
   tag_inv (case p of (Some e, s1) \<Rightarrow> s1\<lparr>sender := f e\<rparr> | (None, s1) \<Rightarrow> s1\<lparr>sender := g s1\<rparr>)"
  by (cases p; cases "fst p"; simp add: tag_inv_sender)

lemma tag_inv_receiver_result:
  "tag_inv (snd p) \<Longrightarrow>
   tag_inv (case p of (Some e, s1) \<Rightarrow> s1\<lparr>receiver := f e\<rparr>
            | (None, s1) \<Rightarrow> (if sock s1 then s1 else s1\<lparr>receiver := g\<rparr>))"
  by (cases p; cases "fst p"; simp add: tag_inv_receiver)

lemma tag_inv_sleep: "tag_inv (snd (sleep d s)) = tag_inv s"
  by (rule tag_inv_cong) (simp_all add: sleep_def raise_def ok_def)

lemma tag_inv_run_pop: "tag_inv s \<Longrightarrow> tag_inv (run_pop s)"
proof -
  assume i: "tag_inv s"
  define q where "q = butlast (u_queue s)"
  define cmd where "cmd = last (u_queue s)"
  define s1 where "s1 = s\<lparr>u_queue := q\<rparr>"
  define p where "p = (if \<not> u_authed s1 then u_reauthenticate s1 else ok s1)"
  have i1: "tag_inv s1" using i by (simp add: tag_inv_queue s1_def)
  have "tag_inv (snd p)"
    using i1 by (simp add: p_def tag_inv_u_reauthenticate ok_def)
  from tag_inv_sender_result[OF this, where f = SenderCrashed and g = "\<lambda>s. Waiting cmd"]
  have a: "tag_inv (case p of
      (Some e, s2) \<Rightarrow> s2\<lparr>sender := SenderCrashed e\<rparr>
    | (None, s2) \<Rightarrow> s2\<lparr>sender := Waiting cmd\<rparr>)" .
  have b: "tag_inv (case sleep d s of
      (Some e, s1) \<Rightarrow> s1\<lparr>sender := SenderCrashed e\<rparr> | (None, s1) \<Rightarrow> s1)" for d
    using i tag_inv_sleep[of d s]
    by (cases "sleep d s"; cases "fst (sleep d s)") (simp_all add: tag_inv_sender)
  have rp: "run_pop s =
     (case sender s of
        Polling \<Rightarrow>
          (if length (u_queue s) < 1 then
             (case sleep (2 / 10) s of
                (Some e, s1) \<Rightarrow> s1\<lparr>sender := SenderCrashed e\<rparr> | (None, s1) \<Rightarrow> s1)
           else if \<not> adbb_log s1 then s1\<lparr>sender := SenderCrashed AttributeError\<rparr>
           else if command (heap s1 cmd) \<noteq> ''AUTH'' then
                   (case p of
                      (Some e, s2) \<Rightarrow> s2\<lparr>sender := SenderCrashed e\<rparr>
                    | (None, s2) \<Rightarrow> s2\<lparr>sender := Waiting cmd\<rparr>)
                 else s1\<lparr>sender := Waiting cmd\<rparr>)
      | _ \<Rightarrow> s)"
    unfolding p_def s1_def q_def cmd_def
    by (cases "adbb_log s")
       (simp_all add: run_pop_def deque_pop_def Let_def u_log_def ok_def raise_def
          split: sender_state.splits)
  show ?thesis
    unfolding rp using i i1 a b
    by (cases "sender s") (simp_all add: tag_inv_sender)
qed

lemma tag_inv_run_send: "tag_inv s \<Longrightarrow> tag_inv (run_send s)"
proof -
  assume i: "tag_inv s"
  have b: "\<not> 0 < u_banned s" using i by (simp add: tag_inv_def)
  have t: "tag_inv (snd (u_send_command cmd s))" for cmd
    by (simp add: send_unbanned[OF b] tag_inv_send_unbanned i)
  have a: "tag_inv (case u_send_command cmd s of
      (Some e, s1) \<Rightarrow> s1\<lparr>sender := SenderCrashed e\<rparr>
    | (None, s1) \<Rightarrow> (if command (heap s1 cmd) = ''LOGOUT'' then s1\<lparr>sender := SenderExited\<rparr>
                 else s1\<lparr>sender := Polling\<rparr>))" for cmd
    using t[of cmd]
    by (cases "u_send_command cmd s"; cases "fst (u_send_command cmd s)")
       (simp_all add: tag_inv_sender)
  show ?thesis
    using i a by (cases "sender s") (simp_all add: run_send_def)
qed

lemma tag_inv_step:
  assumes "tag_inv s"
  shows "tag_inv (step dz rr a s)"
proof (cases a)
  case (CallRequest c n prio)
  have "tag_inv (snd (request (next_ref s) (Cb_user n) prio (snd (alloc c s))))"
    using tag_inv_alloc[OF assms] by (intro tag_inv_request) auto
  then show ?thesis
    using CallRequest tag_inv_alloc(3)[OF assms, of c] by (simp add: case_prod_beta)
next
  case CallStop
  then show ?thesis by (simp add: tag_inv_stop[OF assms])
next
  case SenderPop
  then show ?thesis by (simp add: tag_inv_run_pop[OF assms])
next
  case SenderSend
  then show ?thesis by (simp add: tag_inv_run_send[OF assms])
next
  case (Datagram data)
  then show ?thesis
    using assms tag_inv_receiver_result[OF tag_inv_run_data[OF assms, of dz rr data]]
    by (simp add: listener_recv_def split: receiver_state.splits)
next
  case RecvTimeout
  then show ?thesis
    using assms tag_inv_receiver_result[OF tag_inv_handle_timeouts[OF assms]]
    by (simp add: listener_timeout_def split: receiver_state.splits)
next
  case (Tick d)
  have "tag_inv (s\<lparr>clock := k\<rparr>) = tag_inv s" for k by (rule tag_inv_cong) simp_all
  then show ?thesis using Tick assms by simp
qed

lemma tag_inv_exec: "tag_inv s \<Longrightarrow> tag_inv (exec dz rr acts s)"
  unfolding exec_def by (induction acts arbitrary: s) (simp_all add: tag_inv_step)

lemma tag_inv_init: "tag_inv (init user pwd tmo now)" "tag_inv (with_logger (init user pwd tmo now))"
  by (simp_all add: tag_inv_def init_def with_logger_def)

subsection \<open>The cycle of tags\<close>

lemma digit_char_value: "d < 10 \<Longrightarrow> of_char (digit_char d) = (48 + d :: nat)"
proof -
  assume "d < 10"
  then have "d \<in> {0, 1, 2, 3, 4, 5, 6, 7, 8, 9}" by auto
  then show ?thesis by (auto simp: digit_char_def)
qed

lemma digit_char_set: "d < 10 \<Longrightarrow> digit_char d \<in> set ''0123456789''"
  unfolding digit_char_def by (rule nth_mem) simp

lemma dec_value_snoc: "dec_value (ds @ [c]) = 10 * dec_value ds + (of_char c - 48)"
  by (simp add: dec_value_def)

lemma dec_value_digits: "dec_value (dec_digits n) = n"
proof (induction n rule: dec_digits.induct)
  case (1 n)
  show ?case
  proof (cases "n < 10")
    case True
    then show ?thesis
      by (subst dec_digits.simps) (simp add: dec_value_def digit_char_value)
  next
    case False
    then show ?thesis
      using "1.IH" by (subst dec_digits.simps) (simp add: dec_value_snoc digit_char_value)
  qed
qed

lemma dec_digits_set: "set (dec_digits n) \<subseteq> set ''0123456789''"
proof (induction n rule: dec_digits.induct)
  case (1 n)
  show ?case
  proof (cases "n < 10")
    case True
    then show ?thesis
      using digit_char_set[of n] by (subst dec_digits.simps) simp
  next
    case False
    have "n mod 10 < 10" by simp
    then show ?thesis
      using "1.IH" False digit_char_set[of "n mod 10"] by (subst dec_digits.simps) simp
  qed
qed

lemma dec_value_zeros: "dec_value (replicate k (CHR ''0'') @ ds) = dec_value ds"
  by (induction k) (simp_all add: dec_value_def)

lemma dec_value_fmt: "0 \<le> n \<Longrightarrow> dec_value (fmt03d n) = nat n"
  by (simp add: fmt03d_def zfill_def dec_value_zeros dec_value_digits)

lemma fmt_set: "0 \<le> n \<Longrightarrow> set (fmt03d n) \<subseteq> set ''0123456789''"
  using dec_digits_set[of "nat n"] by (auto simp: fmt03d_def zfill_def)

lemma tag_name_inj: "inj_on tag_name {0..<1000}"
proof (rule inj_onI)
  fix x y assume x: "x \<in> {0..<1000}" and y: "y \<in> {0..<1000}" and e: "tag_name x = tag_name y"
  have no: "''OOO'' \<noteq> fmt03d (int m + 1)" for m
  proof
    assume "''OOO'' = fmt03d (int m + 1)"
    then have "CHR ''O'' \<in> set (fmt03d (int m + 1))" by (metis list.set_intros(1))
    then show False using fmt_set[of "int m + 1"] by auto
  qed
  show "x = y"
  proof (cases "x = 999 \<or> y = 999")
    case True
    then show ?thesis using e no[of x] no[of y] by (auto simp: tag_name_def split: if_splits)
  next
    case False
    then have "fmt03d (int x + 1) = fmt03d (int y + 1)" using e by (simp add: tag_name_def)
    then have "dec_value (fmt03d (int x + 1)) = dec_value (fmt03d (int y + 1))" by simp
    then show ?thesis by (simp add: dec_value_fmt)
  qed
qed

lemma new_tag_name:
  assumes "0 \<le> u_current_tag s" and "u_current_tag s \<le> 999"
  shows "fst (u_new_tag s) = tag_name (nat (u_current_tag s))"
    and "u_current_tag (snd (u_new_tag s)) = int ((nat (u_current_tag s) + 1) mod 1000)"
  using assms by (auto simp: u_new_tag_def tag_name_def Let_def)

lemma alloc_tags_names:
  "0 \<le> u_current_tag s \<Longrightarrow> u_current_tag s \<le> 999 \<Longrightarrow>
   alloc_tags n s = map (\<lambda>k. tag_name ((nat (u_current_tag s) + k) mod 1000)) [0..<n]"
proof (induction n arbitrary: s)
  case 0
  then show ?case by simp
next
  case (Suc n)
  let ?s = "snd (u_new_tag s)"
  have c: "u_current_tag ?s = int ((nat (u_current_tag s) + 1) mod 1000)"
    by (rule new_tag_name(2)[OF Suc.prems])
  have r: "0 \<le> u_current_tag ?s" "u_current_tag ?s \<le> 999" unfolding c by simp_all
  have m: "(nat (int ((nat (u_current_tag s) + 1) mod 1000)) + k) mod 1000
         = (nat (u_current_tag s) + Suc k) mod 1000" for k
    by (simp add: mod_simps)
  have h: "nat (u_current_tag s) mod 1000 = nat (u_current_tag s)"
    using Suc.prems by simp
  have u: "[0..<Suc n] = 0 # map Suc [0..<n]"
    by (simp add: upt_conv_Cons map_Suc_upt del: upt_Suc)
  show ?case
    unfolding alloc_tags.simps Suc.IH[OF r] c m new_tag_name(1)[OF Suc.prems] u
    by (simp add: h comp_def)
qed

lemma mod_shift_inj:
  assumes "(c + x) mod 1000 = (c + y) mod (1000::nat)" and "x < 1000" and "y < 1000"
  shows "x = y"
proof -
  have a: "u = v" if "v \<le> u" "(c + u) mod 1000 = (c + v) mod (1000::nat)" "u < 1000" for u v
  proof -
    have "1000 dvd (c + u) - (c + v)"
      using that(1,2) by (simp add: mod_eq_dvd_iff_nat)
    then have "1000 dvd u - v" by simp
    then have "u - v = 0"
      using that(3) by (meson less_imp_diff_less nat_dvd_not_less not_gr_zero)
    then show ?thesis using that(1) by simp
  qed
  show ?thesis
  proof (cases "y \<le> x")
    case True
    then show ?thesis using a[of y x] assms by simp
  next
    case False
    then show ?thesis using a[of x y] assms by simp
  qed
qed

lemma alloc_tags_distinct:
  assumes "0 \<le> u_current_tag s" and "u_current_tag s \<le> 999" and "n \<le> 1000"
  shows "distinct (alloc_tags n s)"
proof -
  let ?c = "nat (u_current_tag s)"
  have i: "inj_on (\<lambda>k. (?c + k) mod 1000) {0..<n}"
  proof (rule inj_onI)
    fix x y assume "x \<in> {0..<n}" "y \<in> {0..<n}" "(?c + x) mod 1000 = (?c + y) mod 1000"
    then show "x = y" using assms(3) by (auto dest: mod_shift_inj)
  qed
  have "inj_on (tag_name \<circ> (\<lambda>k. (?c + k) mod 1000)) {0..<n}"
    by (rule comp_inj_on[OF i]) (rule inj_on_subset[OF tag_name_inj], auto)
  then show ?thesis
    unfolding alloc_tags_names[OF assms(1,2)] by (simp add: distinct_map comp_def)
qed

lemma exec_snoc: "exec dz rr (acts @ [a]) s = step dz rr a (exec dz rr acts s)"
  by (simp add: exec_def)

lemma replicate_Suc_snoc: "replicate (Suc n) a = replicate n a @ [a]"
  by (simp add: replicate_append_same)

lemma step_request_table:
  assumes "command c \<noteq> ''AUTH''"
  shows "cmd_queue (step dz rr (CallRequest c n prio) s)
           = AList.update (fst (u_new_tag s)) (next_ref s) (cmd_queue s)"
    and "u_current_tag (step dz rr (CallRequest c n prio) s)
           = (if 999 \<le> u_current_tag s then 0 else u_current_tag s + 1)"
    and "next_ref (step dz rr (CallRequest c n prio) s) = Suc (next_ref s)"
proof -
  let ?s1 = "snd (alloc c s)"
  let ?s' = "step dz rr (CallRequest c n prio) s"
  have t: "fst (u_new_tag ?s1) = fst (u_new_tag s)"
    by (simp add: alloc_def u_new_tag_def Let_def)
  have c: "command (heap ?s1 (next_ref s)) \<noteq> ''AUTH''"
    using assms by (simp add: alloc_def)
  have "cmd_queue ?s' = cmd_queue (register (next_ref s) (Cb_user n) ?s1)
      \<and> u_current_tag ?s' = u_current_tag (register (next_ref s) (Cb_user n) ?s1)
      \<and> next_ref ?s' = next_ref (register (next_ref s) (Cb_user n) ?s1)"
  proof (cases "adbb_log ?s1")
    case True
    show ?thesis
      using request_nonauth[OF True c, of "Cb_user n" prio]
      by (simp add: case_prod_beta alloc_def)
  next
    case False
    show ?thesis
      using request_unlogged[OF False, of "next_ref s" "Cb_user n" prio]
      by (simp add: case_prod_beta alloc_def)
  qed
  then have st: "cmd_queue ?s' = cmd_queue (register (next_ref s) (Cb_user n) ?s1)"
    "u_current_tag ?s' = u_current_tag (register (next_ref s) (Cb_user n) ?s1)"
    "next_ref ?s' = next_ref (register (next_ref s) (Cb_user n) ?s1)"
    by simp_all
  show "cmd_queue ?s' = AList.update (fst (u_new_tag s)) (next_ref s) (cmd_queue s)"
    unfolding st by (simp add: t) (simp add: alloc_def)
  show "u_current_tag ?s' = (if 999 \<le> u_current_tag s then 0 else u_current_tag s + 1)"
    unfolding st by (simp add: alloc_def)
  show "next_ref ?s' = Suc (next_ref s)"
    unfolding st by (simp add: alloc_def)
qed

lemma first_tag: "tag_name 0 = ''T001''"
  by code_simp

lemma many_requests:
  assumes "command c \<noteq> ''AUTH''" and "u_current_tag s0 = 0" and "next_ref s0 = 0" and "n \<le> 999"
  shows "u_current_tag (exec dz rr (replicate n (CallRequest c k prio)) s0) = int n
     \<and> next_ref (exec dz rr (replicate n (CallRequest c k prio)) s0) = n
     \<and> (0 < n \<longrightarrow> map_of (cmd_queue (exec dz rr (replicate n (CallRequest c k prio)) s0))
                        ''T001'' = Some 0)"
  using assms(4)
proof (induction n)
  case 0
  then show ?case by (simp add: exec_def assms)
next
  case (Suc n)
  let ?s = "exec dz rr (replicate n (CallRequest c k prio)) s0"
  have ih: "u_current_tag ?s = int n" "next_ref ?s = n"
    "0 < n \<Longrightarrow> map_of (cmd_queue ?s) ''T001'' = Some 0"
    using Suc by simp_all
  have e: "exec dz rr (replicate (Suc n) (CallRequest c k prio)) s0
         = step dz rr (CallRequest c k prio) ?s"
    unfolding replicate_Suc_snoc by (rule exec_snoc)
  have nt: "fst (u_new_tag ?s) = tag_name n"
    using new_tag_name(1)[of ?s] Suc.prems by (simp add: ih)
  have ne: "0 < n \<Longrightarrow> tag_name n \<noteq> ''T001''"
    using inj_onD[OF tag_name_inj, of n 0] Suc.prems by (auto simp: first_tag)
  show ?case
    unfolding e step_request_table[OF assms(1)] nt
    using Suc.prems ih ne
    by (cases "n = 0") (simp_all add: AList.update_conv' first_tag)
qed

lemma thousand_requests_table:
  "fst (u_new_tag (thousand_requests lg)) = ''T001''"
  "map_of (cmd_queue (thousand_requests lg)) ''T001'' = Some 0"
  "next_ref (thousand_requests lg) = 1000"
proof -
  let ?a = "CallRequest (cmd_named ''ANIME'') 0 False"
  let ?start = "(init ''u'' ''p'' 20 1000)\<lparr>adbb_log := lg\<rparr>"
  let ?s = "exec example_inflater example_resolver (replicate 999 ?a) ?start"
  have c: "command (cmd_named ''ANIME'') \<noteq> ''AUTH''" by (simp add: cmd_named_def)
  have m: "u_current_tag ?s = 999" "map_of (cmd_queue ?s) ''T001'' = Some 0" "next_ref ?s = 999"
    using many_requests[OF c, where ?s0.0 = ?start and n = 999 and dz = example_inflater
        and rr = example_resolver and k = 0 and prio = False]
    by (simp_all add: init_def)
  have "replicate 1000 ?a = replicate (Suc 999) ?a" by simp
  then have e: "thousand_requests lg = step example_inflater example_resolver ?a ?s"
    unfolding thousand_requests_def replicate_Suc_snoc by (simp only: exec_snoc)
  have t: "fst (u_new_tag ?s) = ''TOOO''" by (simp add: u_new_tag_def m)
  show "map_of (cmd_queue (thousand_requests lg)) ''T001'' = Some 0"
    unfolding e step_request_table[OF c] t by (simp add: AList.update_conv' m)
  have k: "u_current_tag (thousand_requests lg) = 0"
    unfolding e step_request_table[OF c] by (simp add: m)
  show "fst (u_new_tag (thousand_requests lg)) = ''T001''"
    using new_tag_name(1)[of "thousand_requests lg"] by (simp add: k first_tag)
  show "next_ref (thousand_requests lg) = 1000"
    unfolding e step_request_table[OF c] by (simp add: m)
qed

lemma tag_inv_start: "tag_inv ((init user pwd tmo now)\<lparr>adbb_log := lg\<rparr>)"
  by (simp add: tag_inv_def init_def)

text \<open>
  No run of the link from a fresh link counts a ban: \<^verbatim>\<open>_banned\<close> is 0 in every state,
  and the attribute \<^verbatim>\<open>banned\<close>, which \<^verbatim>\<open>set_banned\<close> reads, never comes to exist.
\<close>

lemma never_banned:
  "u_banned (exec dz rr acts ((init user pwd tmo now)\<lparr>adbb_log := lg\<rparr>)) = 0
   \<and> banned (exec dz rr acts ((init user pwd tmo now)\<lparr>adbb_log := lg\<rparr>)) = None"
  using tag_inv_exec[OF tag_inv_start, where dz = dz and rr = rr and acts = acts]
  by (simp add: tag_inv_def)

subsection \<open>Tags in flight\<close>

text \<open>
  Claim C1, as stated, fails. A thousand requests are made on a fresh link and none of
  them has left the table (the sender is between two sends, no reply has come). The
  allocator, which never looks at the table, now returns T001, the tag under which the
  first request (command 0) is still stored; the request that follows is stored under
  T001 in its place (command 1000). This is so with the logger and in the package as it
  is.
\<close>

theorem pending_tag_reused:
  "fst (u_new_tag (thousand_requests True)) \<in> fst ` set (cmd_queue (thousand_requests True))
   \<and> fst (u_new_tag (thousand_requests True)) = ''T001''
   \<and> map_of (cmd_queue (thousand_requests True)) ''T001'' = Some 0
   \<and> map_of (cmd_queue (step example_inflater example_resolver
                (CallRequest (cmd_named ''FILE'') 1 False) (thousand_requests True)))
        ''T001'' = Some 1000
   \<and> fst (u_new_tag (thousand_requests False)) \<in> fst ` set (cmd_queue (thousand_requests False))
   \<and> fst (u_new_tag (thousand_requests False)) = ''T001''
   \<and> map_of (cmd_queue (thousand_requests False)) ''T001'' = Some 0
   \<and> map_of (cmd_queue (step example_inflater example_resolver
                (CallRequest (cmd_named ''FILE'') 1 False) (thousand_requests False)))
        ''T001'' = Some 1000"
proof -
  have c: "command (cmd_named ''FILE'') \<noteq> ''AUTH''" by (simp add: cmd_named_def)
  have m: "''T001'' \<in> fst ` set (cmd_queue (thousand_requests lg))" for lg
    using thousand_requests_table(2)[of lg] by (metis domI dom_map_of_conv_image_fst)
  have r: "map_of (cmd_queue (step example_inflater example_resolver
                (CallRequest (cmd_named ''FILE'') 1 False) (thousand_requests lg)))
        ''T001'' = Some 1000" for lg
    unfolding step_request_table[OF c] thousand_requests_table
    by (simp add: AList.update_conv')
  show ?thesis
    unfolding thousand_requests_table using m r by (simp add: thousand_requests_table)
qed

text \<open>
  Claim C1, amended. In every state that a run of the link reaches from a fresh link,
  with the logger or without it: the requests in the in-flight table have pairwise
  different tags, each is stored under the tag it carries, and the next thousand tags
  that the allocator returns are pairwise different. (A tag comes back after a thousand
  allocations, whether or not it is still in the table: see above.)
\<close>

theorem in_flight_tags:
  "distinct (map (\<lambda>(t, r). tag (heap (exec dz rr acts ((init user pwd tmo now)\<lparr>adbb_log := lg\<rparr>)) r))
       (cmd_queue (exec dz rr acts ((init user pwd tmo now)\<lparr>adbb_log := lg\<rparr>))))
   \<and> (\<forall>(t, r) \<in> set (cmd_queue (exec dz rr acts ((init user pwd tmo now)\<lparr>adbb_log := lg\<rparr>))).
         tag (heap (exec dz rr acts ((init user pwd tmo now)\<lparr>adbb_log := lg\<rparr>)) r) = Some t)
   \<and> distinct (alloc_tags 1000 (exec dz rr acts ((init user pwd tmo now)\<lparr>adbb_log := lg\<rparr>)))"
proof -
  let ?s = "exec dz rr acts ((init user pwd tmo now)\<lparr>adbb_log := lg\<rparr>)"
  have i: "tag_inv ?s" by (rule tag_inv_exec[OF tag_inv_start])
  then have d: "distinct (map fst (cmd_queue ?s))" by (simp add: tag_inv_def)
  have t: "\<forall>(t, r) \<in> set (cmd_queue ?s). tag (heap ?s r) = Some t"
    using i d by (auto simp: tag_inv_def)
  have eq: "map (\<lambda>(t, r). tag (heap ?s r)) (cmd_queue ?s) = map Some (map fst (cmd_queue ?s))"
    unfolding map_map by (rule map_cong[OF refl]) (use t in auto)
  have "distinct (map Some (map fst (cmd_queue ?s)))"
    using d by (subst distinct_map) (simp add: inj_on_def)
  then have "distinct (map (\<lambda>(t, r). tag (heap ?s r)) (cmd_queue ?s))"
    by (simp only: eq)
  moreover have "distinct (alloc_tags 1000 ?s)"
    using i by (intro alloc_tags_distinct) (simp_all add: tag_inv_def)
  ultimately show ?thesis using t by simp
qed

text \<open>The amended claim at the two priority requests of the example above.\<close>

theorem in_flight_tags_witness:
  "distinct (map (\<lambda>(t, r). tag (heap two_priority_requests r)) (cmd_queue two_priority_requests))
   \<and> distinct (alloc_tags 1000 two_priority_requests)"
  using in_flight_tags [where dz = example_inflater and rr = example_resolver
      and acts = "[CallRequest (cmd_named ''ANIME'') 0 True, CallRequest (cmd_named ''FILE'') 1 True]"
      and user = "''u''" and pwd = "''p''" and tmo = 20 and now = 1000 and lg = True]
  by (simp add: two_priority_requests_def with_logger_def)

subsection \<open>Authentication first\<close>

text \<open>
  C5. In the package as it is the code does not do what the claim says. \<^verbatim>\<open>request\<close> stores
  the AUTH command in the in-flight table (under T001) and then raises AttributeError at
  its call of \<^verbatim>\<open>adbb._log.debug\<close>, before the branch that sends AUTH at once: no datagram
  is sent. The flag \<^verbatim>\<open>_authenticating\<close> stays set, so a second \<^verbatim>\<open>reauthenticate()\<close> returns
  without issuing AUTH again. A first request for ANIME raises in the same place and is
  not enqueued, so the sender finds nothing to take and sends nothing. Where the logger
  exists the same calls do what the claim says: the AUTH datagram is sent within the
  call, it is the first datagram of the run, and the sender holds ANIME back.
\<close>

theorem auth_request_raises:
  "fst (fresh_reauthenticate False) = Some AttributeError
   \<and> sent (events (snd (fresh_reauthenticate False))) = []
   \<and> u_queue (snd (fresh_reauthenticate False)) = []
   \<and> map (\<lambda>(t, r). (t, command (heap (snd (fresh_reauthenticate False)) r)))
        (cmd_queue (snd (fresh_reauthenticate False))) = [(''T001'', ''AUTH'')]
   \<and> u_authenticating (snd (fresh_reauthenticate False))
   \<and> fst (reauthenticate (snd (fresh_reauthenticate False))) = None
   \<and> sent (events (snd (reauthenticate (snd (fresh_reauthenticate False))))) = []
   \<and> sent (events (first_request False)) = []
   \<and> u_queue (first_request False) = []
   \<and> sender (first_request False) = Polling
   \<and> fst (fresh_reauthenticate True) = None
   \<and> map command (sent (events (snd (fresh_reauthenticate True)))) = [''AUTH'']
   \<and> map command (sent (events (first_request True))) = [''AUTH'']
   \<and> sender (first_request True) = Waiting 0"
  unfolding fresh_reauthenticate_def first_request_def by code_simp

end
